(* ===== verification/Prelude.thy ===== *)
theory Prelude
  imports Main
begin

text \<open>
  Shared vocabulary of the locksmith development: the types of timestamps and store
  keys, the two pieces of JavaScript semantics the source relies on (the falsy default
  \<open>a || d\<close> of option parsing, and \<open><\<close> between a number and a Redis reply that may be
  \<open>null\<close>), the named collection \<open>lock_model_defs\<close> of the definitions the component
  proofs unfold, and generic lemmas on lists and maps used by the invariant proofs.
\<close>

named_theorems lock_model_defs "definitions of the lock model unfolded by the component proofs"

type_synonym timestamp = int
  \<comment> \<open>\<open>moment().unix()\<close>: whole seconds since the epoch\<close>

type_synonym store_key = string

subsection \<open>JavaScript semantics used by the source\<close>

text \<open>
  \<open>x || d\<close> yields \<open>d\<close> when \<open>x\<close> is falsy. An absent option is \<open>undefined\<close>;
  for a string the falsy value is \<open>''\<close>, for a number it is \<open>0\<close>.
\<close>

definition js_or_str :: "string option \<Rightarrow> string \<Rightarrow> string" where
  "js_or_str x d = (case x of None \<Rightarrow> d | Some s \<Rightarrow> (if s = [] then d else s))"

definition js_or_int :: "int option \<Rightarrow> int \<Rightarrow> int" where
  "js_or_int x d = (case x of None \<Rightarrow> d | Some n \<Rightarrow> (if n = 0 then d else n))"

text \<open>
  \<open>n < reply\<close> with \<open>reply\<close> a Redis bulk reply: \<open>null\<close> when the key is absent,
  converted to \<open>0\<close> by the relational operator, otherwise the stored number.
\<close>

fun js_lt_reply :: "timestamp \<Rightarrow> int option \<Rightarrow> bool" where
  "js_lt_reply n None = (n < 0)"
| "js_lt_reply n (Some v) = (n < v)"

lemma js_or_str_falsy [simp]:
  "js_or_str None d = d" "js_or_str (Some []) d = d"
  by (simp_all add: js_or_str_def)

lemma js_or_str_truthy [simp]: "s \<noteq> [] \<Longrightarrow> js_or_str (Some s) d = s"
  by (simp add: js_or_str_def)

lemma js_or_int_falsy [simp]:
  "js_or_int None d = d" "js_or_int (Some 0) d = d"
  by (simp_all add: js_or_int_def)

lemma js_or_int_truthy [simp]: "n \<noteq> 0 \<Longrightarrow> js_or_int (Some n) d = n"
  by (simp add: js_or_int_def)

lemma js_or_int_nonzero: "d \<noteq> 0 \<Longrightarrow> js_or_int x d \<noteq> 0"
  by (simp add: js_or_int_def split: option.splits)

lemma js_lt_reply_nonneg [simp]: "0 \<le> n \<Longrightarrow> \<not> js_lt_reply n None"
  by simp

subsection \<open>Lists indexed by request number\<close>

lemma set_list_update_subset_insert: "set (xs[i := x]) \<subseteq> insert x (set xs)"
  by (induction xs arbitrary: i) (auto split: nat.splits)

lemma in_set_list_updateD: "y \<in> set (xs[i := x]) \<Longrightarrow> y = x \<or> y \<in> set xs"
  using set_list_update_subset_insert by fastforce

lemma list_update_other [simp]: "i \<noteq> j \<Longrightarrow> xs[i := x] ! j = xs ! j"
  by simp

lemma in_set_list_update_other:
  "y \<in> set (xs[i := x]) \<Longrightarrow> y = x \<or> (\<exists>j < length xs. j \<noteq> i \<and> y = xs ! j)"
proof -
  assume "y \<in> set (xs[i := x])"
  then obtain j where j: "j < length xs" "xs[i := x] ! j = y" by (auto simp: in_set_conv_nth)
  then show ?thesis by (cases "j = i") auto
qed

lemma list_update_keeps_others: "\<exists>i'. \<forall>j < length xs. j \<noteq> i' \<longrightarrow> xs[i := x] ! j = xs ! j"
  by (rule exI [of _ i]) simp

end
