(* ===== verification/Config.thy ===== *)
theory Config
  imports Prelude
begin

text \<open>
  The \<open>Locksmith\<close> constructor of \<open>src/index.js\<close> (lines 10--34): option parsing with
  JavaScript's falsy defaults, the options deleted before the rest are handed to
  \<open>redis.createClient\<close>, and the store key \<open>fullKey = prefix + key\<close> formed by
  \<open>lock\<close> (line 46) and \<open>_release\<close> (line 92). The Redis connection itself is not
  modelled: a client is named by the way it was obtained.
\<close>

text \<open>
  The \<open>options\<close> object. Each field is absent (\<open>undefined\<close>) or present;
  \<open>redisClient\<close> is an already connected client, named by a number.
\<close>

record options =
  opt_host :: "string option"
  opt_port :: "int option"
  opt_prefix :: "string option"
  opt_timeout :: "int option"
  opt_retries :: "int option"
  opt_redisClient :: "nat option"

definition no_options :: options where
  "no_options = \<lparr>opt_host = None, opt_port = None, opt_prefix = None, opt_timeout = None,
     opt_retries = None, opt_redisClient = None\<rparr>"

text \<open>
  How \<open>this._redisClient\<close> was obtained: the caller's client, or
  \<open>redis.createClient(host, port, options)\<close> with the options left after the deletes.
\<close>

datatype client = GivenClient nat | CreatedClient "string option" "int option" options

record locksmith =
  ls_client :: client
  ls_prefix :: string
  ls_timeout :: int
  ls_retries :: int

text \<open>
  \<open>options.host || null\<close> and \<open>options.port || null\<close> keep a truthy value and turn
  every falsy one into \<open>null\<close> (\<open>None\<close>).
\<close>

definition js_or_null_str :: "string option \<Rightarrow> string option" where
  "js_or_null_str x = (case x of Some s \<Rightarrow> (if s = [] then None else Some s) | None \<Rightarrow> None)"

definition js_or_null_int :: "int option \<Rightarrow> int option" where
  "js_or_null_int x = (case x of Some n \<Rightarrow> (if n = 0 then None else Some n) | None \<Rightarrow> None)"

text \<open>
  \<open>delete options.host\<close>, \<open>port\<close>, \<open>prefix\<close>, \<open>timeout\<close> (lines 20--23). The
  deletes act on the object the caller passed, not on a copy.
\<close>

definition delete_consumed :: "options \<Rightarrow> options" where
  "delete_consumed options =
     options\<lparr>opt_host := None, opt_port := None, opt_prefix := None, opt_timeout := None\<rparr>"

text \<open>The constructor, statement by statement; \<open>None\<close> is a call without options.\<close>

definition Locksmith :: "options option \<Rightarrow> locksmith" where
  "Locksmith opts =
     (let options = (case opts of None \<Rightarrow> no_options | Some opt \<Rightarrow> opt);
          host = js_or_null_str (opt_host options);
          port = js_or_null_int (opt_port options);
          prefix = js_or_str (opt_prefix options) ''__locksmith:'';
          timeout = js_or_int (opt_timeout options) 10;
          retries = js_or_int (opt_retries options) 100;
          options = delete_consumed options;
          client = (case opt_redisClient options of
                      Some c \<Rightarrow> GivenClient c
                    | None \<Rightarrow> CreatedClient host port options)
      in \<lparr>ls_client = client, ls_prefix = prefix, ls_timeout = timeout,
          ls_retries = retries\<rparr>)"

text \<open>
  \<open>new Locksmith(options)\<close> with its effect on the caller: the instance, and the
  caller's options object as the constructor leaves it (\<open>options || {}\<close> makes a
  fresh object only when none was passed).
\<close>

definition new_Locksmith :: "options option \<Rightarrow> locksmith \<times> options option" where
  "new_Locksmith opts = (Locksmith opts, map_option delete_consumed opts)"

text \<open>
  \<open>lock(key, cb)\<close> and \<open>lock(cb)\<close>: a call with no key (\<open>None\<close>) locks the empty key.
\<close>

definition lock_key :: "string option \<Rightarrow> string" where
  "lock_key k = (case k of None \<Rightarrow> [] | Some key \<Rightarrow> key)"

definition full_key :: "locksmith \<Rightarrow> string \<Rightarrow> store_key" where
  "full_key ls key = ls_prefix ls @ key"

declare full_key_def [lock_model_defs]

subsection \<open>Properties of the configuration\<close>

lemma Locksmith_fields:
  "ls_prefix (Locksmith opts) =
     js_or_str (opt_prefix (case opts of None \<Rightarrow> no_options | Some opt \<Rightarrow> opt)) ''__locksmith:''"
  "ls_timeout (Locksmith opts) =
     js_or_int (opt_timeout (case opts of None \<Rightarrow> no_options | Some opt \<Rightarrow> opt)) 10"
  "ls_retries (Locksmith opts) =
     js_or_int (opt_retries (case opts of None \<Rightarrow> no_options | Some opt \<Rightarrow> opt)) 100"
  by (simp_all add: Locksmith_def Let_def)

text \<open>
  C9. Falsy defaults make a zero retry budget and a zero lease impossible: whatever the
  options, the configured \<open>retries\<close> and \<open>timeout\<close> are non-zero, and
  \<open>retries: 0\<close> is replaced by the default 100.
\<close>

theorem Locksmith_no_zero_budget:
  "ls_retries (Locksmith opts) \<noteq> 0 \<and> ls_timeout (Locksmith opts) \<noteq> 0 \<and>
   ls_retries (Locksmith (Some (opt\<lparr>opt_retries := Some 0\<rparr>))) = 100"
  by (simp add: Locksmith_fields js_or_int_nonzero)

text \<open>
  C10. When no client is given, the options handed to \<open>redis.createClient\<close> are the
  caller's with \<open>host\<close>, \<open>port\<close>, \<open>prefix\<close> and \<open>timeout\<close> removed; the
  locksmith option \<open>retries\<close> is not removed and reaches the Redis client.
\<close>

theorem Locksmith_client_options:
  assumes "opt_redisClient opt = None"
  shows "ls_client (Locksmith (Some opt)) =
     CreatedClient (js_or_null_str (opt_host opt)) (js_or_null_int (opt_port opt))
       (opt\<lparr>opt_host := None, opt_port := None, opt_prefix := None, opt_timeout := None\<rparr>)"
  using assms by (simp add: Locksmith_def delete_consumed_def Let_def)

theorem Locksmith_client_options_witness:
  "opt_redisClient (no_options\<lparr>opt_retries := Some 3\<rparr>) = None \<and>
   ls_client (Locksmith (Some (no_options\<lparr>opt_retries := Some 3\<rparr>))) =
     CreatedClient None None (no_options\<lparr>opt_retries := Some 3\<rparr>)"
proof -
  have h: "opt_redisClient (no_options\<lparr>opt_retries := Some 3\<rparr>) = None" by (simp add: no_options_def)
  show ?thesis using Locksmith_client_options [OF h] h
    by (simp add: no_options_def js_or_null_str_def js_or_null_int_def)
qed

end
