(* ===== verification/Store.thy ===== *)
theory Store
  imports Prelude
begin

text \<open>
  The Redis commands the source calls (\<open>setnx\<close>, \<open>get\<close>, \<open>getset\<close>, \<open>del\<close>), as the
  atomic store operations of the spec's capability interface (section 6). Redis is not
  code of the repository: these definitions follow the interface, not a source file.
  The store maps a key to the number last written there; locksmith writes only whole
  timestamps, so values are integers. Each operation returns its reply and the new
  store.
\<close>

type_synonym store = "store_key \<Rightarrow> int option"

text \<open>\<open>SETNX key value\<close>: reply 1 and store the value if the key is absent, else 0.\<close>

definition redis_setnx :: "store_key \<Rightarrow> int \<Rightarrow> store \<Rightarrow> int \<times> store" where
  "redis_setnx k v s = (case s k of None \<Rightarrow> (1, s(k \<mapsto> v)) | Some _ \<Rightarrow> (0, s))"

text \<open>\<open>GET key\<close>: the value, or \<open>null\<close>.\<close>

definition redis_get :: "store_key \<Rightarrow> store \<Rightarrow> int option" where
  "redis_get k s = s k"

text \<open>\<open>GETSET key value\<close>: store the value, reply the one it replaced.\<close>

definition redis_getset :: "store_key \<Rightarrow> int \<Rightarrow> store \<Rightarrow> int option \<times> store" where
  "redis_getset k v s = (s k, s(k \<mapsto> v))"

text \<open>\<open>DEL key\<close>: remove the key, reply the number of keys removed.\<close>

definition redis_del :: "store_key \<Rightarrow> store \<Rightarrow> int \<times> store" where
  "redis_del k s = ((case s k of None \<Rightarrow> 0 | Some _ \<Rightarrow> 1), s(k := None))"

declare redis_setnx_def [lock_model_defs] redis_get_def [lock_model_defs]
  redis_getset_def [lock_model_defs] redis_del_def [lock_model_defs]

subsection \<open>The interface's contract\<close>

lemma redis_setnx_absent [simp]: "s k = None \<Longrightarrow> redis_setnx k v s = (1, s(k \<mapsto> v))"
  by (simp add: redis_setnx_def)

lemma redis_setnx_present [simp]: "s k = Some u \<Longrightarrow> redis_setnx k v s = (0, s)"
  by (simp add: redis_setnx_def)

lemma redis_setnx_other: "k' \<noteq> k \<Longrightarrow> snd (redis_setnx k v s) k' = s k'"
  by (simp add: redis_setnx_def split: option.splits)

lemma redis_getset_other: "k' \<noteq> k \<Longrightarrow> snd (redis_getset k v s) k' = s k'"
  by (simp add: redis_getset_def)

end
