(* ===== verification/Lease.thy ===== *)
theory Lease
  imports Prelude
begin

text \<open>
  The lease calculator: \<open>moment().add('seconds', timeout).unix()\<close> (lines 49 and 73 of
  \<open>src/index.js\<close>) and the liveness test \<open>moment().unix() < expires\<close> (lines 70, 78
  and 97). The clock is read in milliseconds, as \<open>moment()\<close> holds it, and
  \<open>.unix()\<close> truncates to whole seconds; timestamps of leases are whole seconds.
\<close>

type_synonym millis = int

definition unix :: "millis \<Rightarrow> timestamp" where
  "unix ms = ms div 1000"

text \<open>\<open>moment().add('seconds', timeout).unix()\<close> at clock \<open>ms\<close>.\<close>

definition expiry_at :: "millis \<Rightarrow> int \<Rightarrow> timestamp" where
  "expiry_at ms timeout = unix (ms + 1000 * timeout)"

text \<open>\<open>moment().unix() < expires\<close>: the lease is still running.\<close>

definition lease_live :: "millis \<Rightarrow> timestamp \<Rightarrow> bool" where
  "lease_live ms expires = (unix ms < expires)"

declare unix_def [lock_model_defs] lease_live_def [lock_model_defs]

lemma unix_mono: "ms \<le> ms' \<Longrightarrow> unix ms \<le> unix ms'"
  by (simp add: unix_def zdiv_mono1)

lemma unix_add_second: "unix (ms + 1000) = unix ms + 1"
  by (simp add: unix_def)

lemma lease_live_antimono: "lease_live ms' e \<Longrightarrow> ms \<le> ms' \<Longrightarrow> lease_live ms e"
  unfolding lease_live_def using unix_mono by (meson order.strict_trans1)

lemma expiry_at_unix [simp]: "expiry_at ms timeout = unix ms + timeout"
  by (simp add: expiry_at_def unix_def)

text \<open>
  C11. A lease computed at clock \<open>ms\<close> with a timeout of \<open>t\<close> seconds is live
  exactly while fewer than \<open>t\<close> whole seconds have passed since the second of
  \<open>ms\<close>: the expiry written is the truncated clock plus \<open>t\<close>, with no
  sub-second drift between the value written and the value later compared.
\<close>

theorem lease_live_window:
  "expiry_at ms t = ms div 1000 + t \<and> lease_live ms' (expiry_at ms t) = (unix ms' - unix ms < t)"
  by (simp add: lease_live_def unix_def, arith)

end
