(* ===== verification/Acquire.thy ===== *)
theory Acquire
  imports Config Store Lease
begin

text \<open>
  The acquisition engine: \<open>Locksmith.prototype.lock\<close> (lines 36--89 of
  \<open>src/index.js\<close>). One call of \<open>lock\<close> is one request, with its own retry counter
  and lease expiry (the variables \<open>retries\<close> and \<open>expires\<close> of the closure). The
  request moves through the callbacks of the source: \<open>aquire\<close> sends \<open>SETNX\<close>,
  \<open>handleSetnx\<close> either grants or sends \<open>GET\<close>, \<open>handleGet\<close> either retries or
  sends \<open>GETSET\<close>, \<open>handleGetSet\<close> either retries or grants, and \<open>retry\<close> either
  fails or arms a one-second timer that calls \<open>aquire\<close> again. Each callback is one
  function of this theory; the phase of a request records which callback runs next,
  so that requests of several processes can be interleaved in \<open>System\<close>.
\<close>

datatype redis_error = RedisError string

text \<open>What the callback \<open>cb\<close> receives as its error.\<close>

datatype lock_error = StoreError redis_error | MaxRetriesHit string

text \<open>
  The release function handed to the caller, \<open>_this._release.bind(_this, key,
  expires)\<close>: the key (not the full key) and the expiry this request wrote.
\<close>

record handle =
  h_key :: string
  h_expires :: timestamp

datatype phase =
    SetnxSent
  | SetnxReplied "redis_error + int"
  | GetSent
  | GetReplied "redis_error + int option"
  | GetSetSent
  | GetSetReplied "redis_error + int option"
  | Sleeping millis
  | Done "lock_error + handle"
  | Released handle

record req =
  rq_ls :: locksmith
  rq_key :: string
  rq_retries :: nat
  rq_expires :: timestamp
  rq_phase :: phase

definition rq_full :: "req \<Rightarrow> store_key" where
  "rq_full r = full_key (rq_ls r) (rq_key r)"

lemma rq_full_update [simp]:
  "rq_full (r\<lparr>rq_phase := p\<rparr>) = rq_full r" "rq_full (r\<lparr>rq_expires := x\<rparr>) = rq_full r"
  "rq_full (r\<lparr>rq_retries := n\<rparr>) = rq_full r"
  by (simp_all add: rq_full_def)

subsection \<open>The callbacks\<close>

text \<open>
  \<open>aquire\<close> (lines 48--50): compute the expiry from the clock and send
  \<open>SETNX fullKey expires\<close>.
\<close>

definition aquire :: "millis \<Rightarrow> req \<Rightarrow> req" where
  "aquire ms r = r\<lparr>rq_expires := expiry_at ms (ls_timeout (rq_ls r)), rq_phase := SetnxSent\<rparr>"

text \<open>\<open>lock(key, cb)\<close> (lines 36--47, 88): a fresh counter, then \<open>aquire()\<close> at once.\<close>

definition lock :: "millis \<Rightarrow> locksmith \<Rightarrow> string option \<Rightarrow> req" where
  "lock ms ls k = aquire ms
     \<lparr>rq_ls = ls, rq_key = lock_key k, rq_retries = 0, rq_expires = 0, rq_phase = SetnxSent\<rparr>"

text \<open>\<open>cb(null, _this._release.bind(_this, key, expires))\<close> (lines 55 and 83).\<close>

definition grant :: "req \<Rightarrow> req" where
  "grant r = r\<lparr>rq_phase := Done (Inr \<lparr>h_key = rq_key r, h_expires = rq_expires r\<rparr>)\<rparr>"

definition max_retries_msg :: "string \<Rightarrow> string" where
  "max_retries_msg key = ''maximum retries hit while aquiring lock for: '' @ key"

text \<open>
  \<open>retry\<close> (lines 62--67): \<open>retries++ > _this._retries\<close> compares the counter before
  the increment, and increments it on both branches; the timer fires 1000 ms later.
\<close>

definition retry :: "millis \<Rightarrow> req \<Rightarrow> req" where
  "retry ms r =
     (if ls_retries (rq_ls r) < int (rq_retries r)
      then r\<lparr>rq_retries := Suc (rq_retries r),
             rq_phase := Done (Inl (MaxRetriesHit (max_retries_msg (rq_key r))))\<rparr>
      else r\<lparr>rq_retries := Suc (rq_retries r), rq_phase := Sleeping (ms + 1000)\<rparr>)"

text \<open>\<open>handleSetnx\<close> (lines 50--59): an error ends the request; reply 1 grants.\<close>

fun handle_setnx :: "req \<Rightarrow> redis_error + int \<Rightarrow> req" where
  "handle_setnx r (Inl err) = r\<lparr>rq_phase := Done (Inl (StoreError err))\<rparr>"
| "handle_setnx r (Inr response) =
     (if response = 1 then grant r else r\<lparr>rq_phase := GetSent\<rparr>)"

text \<open>
  \<open>handleGet\<close> (lines 59--86): an unexpired lease means retry; otherwise compute a
  fresh expiry and send \<open>GETSET fullKey expires\<close>. The source reads the clock twice
  (lines 70 and 73); the model reads it once.
\<close>

fun handle_get :: "millis \<Rightarrow> req \<Rightarrow> redis_error + int option \<Rightarrow> req" where
  "handle_get ms r (Inl err) = r\<lparr>rq_phase := Done (Inl (StoreError err))\<rparr>"
| "handle_get ms r (Inr keyExpires) =
     (if js_lt_reply (unix ms) keyExpires then retry ms r
      else r\<lparr>rq_expires := expiry_at ms (ls_timeout (rq_ls r)), rq_phase := GetSetSent\<rparr>)"

text \<open>
  \<open>handleGetSet\<close> (lines 74--84): if the replaced value is still unexpired, another
  process won the expired lease first and this request retries, although its own
  value has been written; otherwise it owns the lock.
\<close>

fun handle_getset :: "millis \<Rightarrow> req \<Rightarrow> redis_error + int option \<Rightarrow> req" where
  "handle_getset ms r (Inl err) = r\<lparr>rq_phase := Done (Inl (StoreError err))\<rparr>"
| "handle_getset ms r (Inr keyExpires) =
     (if js_lt_reply (unix ms) keyExpires then retry ms r else grant r)"

subsection \<open>Where the request meets the store and the clock\<close>

text \<open>
  Redis executing the command a request has sent (the calls on lines 50, 59 and 74),
  atomically: the reply is recorded and the callback runs in a later step.
\<close>

definition redis_exec :: "req \<Rightarrow> store \<Rightarrow> (req \<times> store) option" where
  "redis_exec r s =
     (case rq_phase r of
        SetnxSent \<Rightarrow>
          (let (n, s') = redis_setnx (rq_full r) (rq_expires r) s
           in Some (r\<lparr>rq_phase := SetnxReplied (Inr n)\<rparr>, s'))
      | GetSent \<Rightarrow> Some (r\<lparr>rq_phase := GetReplied (Inr (redis_get (rq_full r) s))\<rparr>, s)
      | GetSetSent \<Rightarrow>
          (let (old, s') = redis_getset (rq_full r) (rq_expires r) s
           in Some (r\<lparr>rq_phase := GetSetReplied (Inr old)\<rparr>, s'))
      | _ \<Rightarrow> None)"

text \<open>
  A command that fails in the store or on the connection: the reply is an error. A
  reply lost after Redis executed the command is an error too, with the command's effect
  on the store kept.
\<close>

definition redis_fail :: "redis_error \<Rightarrow> req \<Rightarrow> req option" where
  "redis_fail e r =
     (case rq_phase r of
        SetnxSent \<Rightarrow> Some (r\<lparr>rq_phase := SetnxReplied (Inl e)\<rparr>)
      | SetnxReplied (Inr _) \<Rightarrow> Some (r\<lparr>rq_phase := SetnxReplied (Inl e)\<rparr>)
      | GetSent \<Rightarrow> Some (r\<lparr>rq_phase := GetReplied (Inl e)\<rparr>)
      | GetReplied (Inr _) \<Rightarrow> Some (r\<lparr>rq_phase := GetReplied (Inl e)\<rparr>)
      | GetSetSent \<Rightarrow> Some (r\<lparr>rq_phase := GetSetReplied (Inl e)\<rparr>)
      | GetSetReplied (Inr _) \<Rightarrow> Some (r\<lparr>rq_phase := GetSetReplied (Inl e)\<rparr>)
      | _ \<Rightarrow> None)"

text \<open>
  The event loop running the callback that is due at clock \<open>ms\<close>: a reply's handler,
  or the timer's \<open>aquire\<close> once its second has passed.
\<close>

definition callback :: "millis \<Rightarrow> req \<Rightarrow> req option" where
  "callback ms r =
     (case rq_phase r of
        SetnxReplied rep \<Rightarrow> Some (handle_setnx r rep)
      | GetReplied rep \<Rightarrow> Some (handle_get ms r rep)
      | GetSetReplied rep \<Rightarrow> Some (handle_getset ms r rep)
      | Sleeping wake \<Rightarrow> (if wake \<le> ms then Some (aquire ms r) else None)
      | _ \<Rightarrow> None)"

declare rq_full_def [lock_model_defs] aquire_def [lock_model_defs] grant_def [lock_model_defs]
  retry_def [lock_model_defs] lock_def [lock_model_defs] redis_exec_def [lock_model_defs]
  redis_fail_def [lock_model_defs] callback_def [lock_model_defs] max_retries_msg_def [lock_model_defs]

subsection \<open>Well-formed requests\<close>

text \<open>
  The handle a request hands out is its own key and expiry, and its retry counter is
  bounded by the configured maximum: at most \<open>max + 1\<close> while it runs, and
  exactly \<open>max + 2\<close> (at least 1) when it fails with \<open>MaxRetriesHit\<close>.
\<close>

definition handle_of :: "req \<Rightarrow> handle" where
  "handle_of r = \<lparr>h_key = rq_key r, h_expires = rq_expires r\<rparr>"

fun handle_ok :: "req \<Rightarrow> phase \<Rightarrow> bool" where
  "handle_ok r (Done (Inr h)) = (h = handle_of r)"
| "handle_ok r (Released h) = (h = handle_of r)"
| "handle_ok r _ = True"

fun retries_ok :: "int \<Rightarrow> nat \<Rightarrow> phase \<Rightarrow> bool" where
  "retries_ok m c (Done (Inl (MaxRetriesHit _))) = (int c = max 1 (m + 2))"
| "retries_ok m c _ = (int c \<le> max 0 (m + 1))"

definition wf_req :: "req \<Rightarrow> bool" where
  "wf_req r \<longleftrightarrow> handle_ok r (rq_phase r) \<and> retries_ok (ls_retries (rq_ls r)) (rq_retries r) (rq_phase r)"

text \<open>A request is finished once its callback \<open>cb\<close> has been called.\<close>

fun finished :: "phase \<Rightarrow> bool" where
  "finished (Done _) = True"
| "finished (Released _) = True"
| "finished _ = False"

lemma retries_ok_bound: "retries_ok m c p \<Longrightarrow> int c \<le> max 1 (m + 2)"
  by (cases "(m, c, p)" rule: retries_ok.cases) auto

lemma wf_req_running: "wf_req r \<Longrightarrow> \<not> finished (rq_phase r) \<Longrightarrow>
    int (rq_retries r) \<le> max 0 (ls_retries (rq_ls r) + 1)"
  by (cases "rq_phase r") (auto simp: wf_req_def)

lemma wf_req_lock: "wf_req (lock ms ls k)"
  by (simp add: wf_req_def lock_def aquire_def)

lemma wf_req_aquire: "wf_req r \<Longrightarrow> \<not> finished (rq_phase r) \<Longrightarrow> wf_req (aquire ms r)"
  using wf_req_running [of r] by (simp add: wf_req_def aquire_def)

lemma wf_req_grant: "wf_req r \<Longrightarrow> \<not> finished (rq_phase r) \<Longrightarrow> wf_req (grant r)"
  using wf_req_running [of r] by (simp add: wf_req_def grant_def handle_of_def)

lemma wf_req_retry: "wf_req r \<Longrightarrow> \<not> finished (rq_phase r) \<Longrightarrow> wf_req (retry ms r)"
  using wf_req_running [of r] by (auto simp: wf_req_def retry_def)

lemma wf_req_set_phase: "wf_req r \<Longrightarrow> \<not> finished (rq_phase r) \<Longrightarrow> \<not> finished p \<Longrightarrow>
    wf_req (r\<lparr>rq_phase := p\<rparr>)"
  using wf_req_running [of r] by (cases p) (auto simp: wf_req_def)

lemma wf_req_set_expires_phase: "wf_req r \<Longrightarrow> \<not> finished (rq_phase r) \<Longrightarrow> \<not> finished p \<Longrightarrow>
    wf_req (r\<lparr>rq_expires := x, rq_phase := p\<rparr>)"
  using wf_req_running [of r] by (cases p) (auto simp: wf_req_def)

lemma wf_req_store_error: "wf_req r \<Longrightarrow> \<not> finished (rq_phase r) \<Longrightarrow>
    wf_req (r\<lparr>rq_phase := Done (Inl (StoreError e))\<rparr>)"
  using wf_req_running [of r] by (simp add: wf_req_def)

lemmas wf_req_intros = wf_req_aquire wf_req_grant wf_req_retry wf_req_set_phase
  wf_req_set_expires_phase wf_req_store_error

lemma wf_req_redis_exec: "redis_exec r s = Some (r', s') \<Longrightarrow> wf_req r \<Longrightarrow> wf_req r'"
  by (cases "rq_phase r") (auto simp: wf_req_def redis_exec_def split: prod.splits)

lemma wf_req_redis_fail: "redis_fail e r = Some r' \<Longrightarrow> wf_req r \<Longrightarrow> wf_req r'"
  by (cases "rq_phase r") (auto simp: wf_req_def redis_fail_def split: sum.splits)

lemma wf_req_callback:
  assumes cb: "callback ms r = Some r'" and wf: "wf_req r"
  shows "wf_req r'"
proof (cases "rq_phase r")
  case (SetnxReplied rep)
  with cb wf show ?thesis by (cases rep) (auto simp: callback_def wf_req_intros)
next
  case (GetReplied rep)
  with cb wf show ?thesis by (cases rep) (auto simp: callback_def wf_req_intros)
next
  case (GetSetReplied rep)
  with cb wf show ?thesis by (cases rep) (auto simp: callback_def wf_req_intros)
next
  case (Sleeping w)
  with cb wf show ?thesis by (auto simp: callback_def wf_req_intros split: if_splits)
qed (use cb in \<open>auto simp: callback_def\<close>)

subsection \<open>What the callbacks keep\<close>

text \<open>
  No callback changes the instance or the key of its request; the expiry is either
  kept or set afresh from the clock, and a command is only ever sent with a fresh
  expiry.
\<close>

fun sent_phase :: "phase \<Rightarrow> bool" where
  "sent_phase SetnxSent = True"
| "sent_phase GetSetSent = True"
| "sent_phase _ = False"

lemma retry_fields [simp]:
  "rq_ls (retry ms r) = rq_ls r" "rq_key (retry ms r) = rq_key r"
  "rq_expires (retry ms r) = rq_expires r" "\<not> sent_phase (rq_phase (retry ms r))"
  by (simp_all add: retry_def)

lemma callback_frame:
  assumes "callback ms r = Some r'"
  shows "rq_ls r' = rq_ls r \<and> rq_key r' = rq_key r \<and>
    (if sent_phase (rq_phase r') then rq_expires r' = expiry_at ms (ls_timeout (rq_ls r))
     else rq_expires r' = rq_expires r)"
proof (cases "rq_phase r")
  case (SetnxReplied rep)
  with assms show ?thesis by (cases rep) (auto simp: callback_def grant_def split: if_splits)
next
  case (GetReplied rep)
  with assms show ?thesis by (cases rep) (auto simp: callback_def split: if_splits)
next
  case (GetSetReplied rep)
  with assms show ?thesis by (cases rep) (auto simp: callback_def grant_def split: if_splits)
next
  case (Sleeping w)
  with assms show ?thesis by (auto simp: callback_def aquire_def split: if_splits)
qed (use assms in \<open>auto simp: callback_def\<close>)

lemma redis_fail_frame:
  "redis_fail e r = Some r' \<Longrightarrow>
     rq_ls r' = rq_ls r \<and> rq_key r' = rq_key r \<and> rq_expires r' = rq_expires r \<and>
     \<not> sent_phase (rq_phase r')"
  by (cases "rq_phase r") (auto simp: redis_fail_def split: sum.splits)

lemma redis_exec_cases:
  assumes "redis_exec r st = Some (r', st')"
  obtains (setnx_won) "rq_phase r = SetnxSent" "st (rq_full r) = None"
      "r' = r\<lparr>rq_phase := SetnxReplied (Inr 1)\<rparr>" "st' = st(rq_full r \<mapsto> rq_expires r)"
  | (setnx_lost) v where "rq_phase r = SetnxSent" "st (rq_full r) = Some v"
      "r' = r\<lparr>rq_phase := SetnxReplied (Inr 0)\<rparr>" "st' = st"
  | (get) "rq_phase r = GetSent" "r' = r\<lparr>rq_phase := GetReplied (Inr (st (rq_full r)))\<rparr>"
      "st' = st"
  | (getset) "rq_phase r = GetSetSent" "r' = r\<lparr>rq_phase := GetSetReplied (Inr (st (rq_full r)))\<rparr>"
      "st' = st(rq_full r \<mapsto> rq_expires r)"
  using assms
  by (cases "rq_phase r"; cases "st (rq_full r)")
     (auto simp: redis_exec_def redis_get_def redis_getset_def)

subsection \<open>Behaviour of one request\<close>

text \<open>
  C5. A lock on a key with no stored lease succeeds on its first attempt: \<open>SETNX\<close>
  stores the expiry computed from the clock at the call, and \<open>handleSetnx\<close> grants
  the handle for that key and expiry without consuming a retry.
\<close>

theorem fresh_key_first_attempt:
  assumes "st (full_key ls (lock_key k)) = None"
  shows "\<exists>r st'. redis_exec (lock ms ls k) st = Some (r, st') \<and>
     st' (full_key ls (lock_key k)) = Some (unix ms + ls_timeout ls) \<and> rq_retries r = 0 \<and>
     callback ms' r = Some (r\<lparr>rq_phase := Done (Inr \<lparr>h_key = lock_key k,
                                                   h_expires = unix ms + ls_timeout ls\<rparr>)\<rparr>)"
  using assms by (simp add: lock_def aquire_def redis_exec_def callback_def grant_def rq_full_def)

theorem fresh_key_first_attempt_witness:
  "Map.empty (full_key (Locksmith None) (lock_key (Some ''x''))) = (None :: int option) \<and>
   (\<exists>r st'. redis_exec (lock 0 (Locksmith None) (Some ''x'')) Map.empty = Some (r, st') \<and>
     st' (full_key (Locksmith None) (lock_key (Some ''x''))) = Some (unix 0 + ls_timeout (Locksmith None)) \<and>
     rq_retries r = 0 \<and>
     callback 0 r = Some (r\<lparr>rq_phase := Done (Inr \<lparr>h_key = lock_key (Some ''x''),
                                                   h_expires = unix 0 + ls_timeout (Locksmith None)\<rparr>)\<rparr>))"
  using fresh_key_first_attempt [of Map.empty "Locksmith None" "Some ''x''" 0 0] by simp

text \<open>
  C12. A \<open>GETSET\<close> that replaces a still unexpired value loses the race: its own
  value stays in the store, but \<open>handleGetSet\<close> retries and never grants the lock.
\<close>

theorem getset_loser_retries:
  assumes "rq_phase r = GetSetSent" "js_lt_reply (unix ms) (st (rq_full r))"
  shows "\<exists>r'. redis_exec r st = Some (r', st(rq_full r \<mapsto> rq_expires r)) \<and>
     callback ms r' = Some (retry ms r') \<and> (\<forall>h. rq_phase (retry ms r') \<noteq> Done (Inr h))"
  using assms by (simp add: redis_exec_def redis_getset_def callback_def retry_def)

theorem getset_loser_retries_witness:
  "rq_phase ((lock 0 (Locksmith None) None)\<lparr>rq_phase := GetSetSent\<rparr>) = GetSetSent \<and>
   js_lt_reply (unix 0) ([''__locksmith:'' \<mapsto> 100] (rq_full ((lock 0 (Locksmith None) None)\<lparr>rq_phase := GetSetSent\<rparr>))) \<and>
   (\<exists>r'. redis_exec ((lock 0 (Locksmith None) None)\<lparr>rq_phase := GetSetSent\<rparr>) [''__locksmith:'' \<mapsto> 100] =
       Some (r', [''__locksmith:'' \<mapsto> 100](rq_full ((lock 0 (Locksmith None) None)\<lparr>rq_phase := GetSetSent\<rparr>) \<mapsto>
                  rq_expires ((lock 0 (Locksmith None) None)\<lparr>rq_phase := GetSetSent\<rparr>))) \<and>
     callback 0 r' = Some (retry 0 r') \<and> (\<forall>h. rq_phase (retry 0 r') \<noteq> Done (Inr h)))"
proof -
  let ?r = "(lock 0 (Locksmith None) None)\<lparr>rq_phase := GetSetSent\<rparr>"
  have h1: "rq_phase ?r = GetSetSent" by simp
  have h2: "js_lt_reply (unix 0) ([''__locksmith:'' \<mapsto> 100] (rq_full ?r))"
    by (simp add: Locksmith_def delete_consumed_def no_options_def lock_def aquire_def rq_full_def full_key_def
                  lock_key_def unix_def)
  show ?thesis
    using getset_loser_retries [where r = ?r and st = "[''__locksmith:'' \<mapsto> 100]" and ms = 0, OF h1 h2]
      h1 h2 by blast
qed

text \<open>
  C13. After a failed \<open>SETNX\<close>, the takeover (\<open>GETSET\<close>) is attempted exactly when the
  stored lease has expired, a key deleted in the meantime (\<open>null\<close>) counting as expired.
\<close>

theorem takeover_iff_expired:
  assumes "0 \<le> ms"
  shows "(rq_phase (handle_get ms r (Inr v)) = GetSetSent) =
     (case v of None \<Rightarrow> True | Some e \<Rightarrow> e \<le> unix ms)"
proof -
  have "0 \<le> unix ms" using assms by (simp add: unix_def)
  then show ?thesis by (cases v) (auto simp: retry_def)
qed

theorem takeover_iff_expired_witness:
  "0 \<le> (0::int) \<and> rq_phase (handle_get 0 (lock 0 (Locksmith None) None) (Inr None)) = GetSetSent"
  using takeover_iff_expired [of 0 "lock 0 (Locksmith None) None" None] by simp

text \<open>
  C14. A Redis error in any of the three replies ends the request at once with
  \<open>StoreError\<close>: no retry is counted and no timer is armed.
\<close>

theorem store_error_aborts:
  assumes "rq_phase r = SetnxReplied (Inl err) \<or> rq_phase r = GetReplied (Inl err) \<or>
    rq_phase r = GetSetReplied (Inl err)"
  shows "callback ms r = Some (r\<lparr>rq_phase := Done (Inl (StoreError err))\<rparr>)"
  using assms by (auto simp: callback_def)

theorem store_error_aborts_witness:
  "callback 0 ((lock 0 (Locksmith None) None)\<lparr>rq_phase := GetReplied (Inl (RedisError ''ECONNRESET''))\<rparr>) =
     Some ((lock 0 (Locksmith None) None)\<lparr>rq_phase := Done (Inl (StoreError (RedisError ''ECONNRESET'')))\<rparr>)"
  using store_error_aborts [of "(lock 0 (Locksmith None) None)\<lparr>rq_phase := GetReplied (Inl (RedisError ''ECONNRESET''))\<rparr>"
      "RedisError ''ECONNRESET''" 0]
  by simp

lemma retry_iterate_fields:
  "rq_retries ((retry ms ^^ n) r) = rq_retries r + n \<and> rq_ls ((retry ms ^^ n) r) = rq_ls r \<and>
   rq_key ((retry ms ^^ n) r) = rq_key r"
  by (induction n) (auto simp: retry_def)

text \<open>
  C15. The retry budget: with \<open>retries = m \<ge> 0\<close>, the first \<open>m + 1\<close> calls of
  \<open>retry\<close> arm the timer and the \<open>(m + 2)\<close>-th fails with \<open>MaxRetriesHit\<close>, because
  \<open>retries++ > _this._retries\<close> compares the counter before incrementing it.
\<close>

theorem retry_budget:
  assumes "ls_retries (rq_ls r) = m" "0 \<le> m" "rq_retries r = 0"
  shows "(\<forall>n. 0 < n \<and> n \<le> nat m + 1 \<longrightarrow> rq_phase ((retry ms ^^ n) r) = Sleeping (ms + 1000)) \<and>
     rq_phase ((retry ms ^^ (nat m + 2)) r) = Done (Inl (MaxRetriesHit (max_retries_msg (rq_key r))))"
proof -
  have step: "(retry ms ^^ Suc n) r = retry ms ((retry ms ^^ n) r)" for n by simp
  have "rq_phase ((retry ms ^^ n) r) = Sleeping (ms + 1000)" if "0 < n" "n \<le> nat m + 1" for n
  proof -
    from that(1) obtain n' where n: "n = Suc n'" using gr0_implies_Suc by blast
    with that(2) assms retry_iterate_fields [where ms = ms and n = n' and r = r] show ?thesis
      by (simp only: step) (simp add: retry_def)
  qed
  moreover have "rq_phase ((retry ms ^^ (nat m + 2)) r) = Done (Inl (MaxRetriesHit (max_retries_msg (rq_key r))))"
    using assms retry_iterate_fields [where ms = ms and n = "nat m + 1" and r = r]
    by (simp only: step [of "nat m + 1", simplified]) (simp add: retry_def)
  ultimately show ?thesis by blast
qed

theorem retry_budget_witness:
  "ls_retries (rq_ls (lock 0 (Locksmith (Some (no_options\<lparr>opt_retries := Some 1\<rparr>))) None)) = 1 \<and>
   rq_retries (lock 0 (Locksmith (Some (no_options\<lparr>opt_retries := Some 1\<rparr>))) None) = 0 \<and>
   rq_phase ((retry 0 ^^ 2) (lock 0 (Locksmith (Some (no_options\<lparr>opt_retries := Some 1\<rparr>))) None)) = Sleeping 1000 \<and>
   rq_phase ((retry 0 ^^ 3) (lock 0 (Locksmith (Some (no_options\<lparr>opt_retries := Some 1\<rparr>))) None)) =
     Done (Inl (MaxRetriesHit (max_retries_msg [])))"
proof -
  let ?r = "lock 0 (Locksmith (Some (no_options\<lparr>opt_retries := Some 1\<rparr>))) None"
  have h1: "ls_retries (rq_ls ?r) = 1" by (simp add: lock_def aquire_def Locksmith_def delete_consumed_def no_options_def)
  have h3: "rq_retries ?r = 0" by (simp add: lock_def aquire_def)
  have h4: "rq_key ?r = []" by (simp add: lock_def aquire_def lock_key_def)
  have "(\<forall>n. 0 < n \<and> n \<le> nat 1 + 1 \<longrightarrow> rq_phase ((retry 0 ^^ n) ?r) = Sleeping (0 + 1000)) \<and>
    rq_phase ((retry 0 ^^ (nat 1 + 2)) ?r) = Done (Inl (MaxRetriesHit (max_retries_msg (rq_key ?r))))"
    by (rule retry_budget [OF h1 _ h3]) simp
  then have "rq_phase ((retry 0 ^^ 2) ?r) = Sleeping 1000"
    and "rq_phase ((retry 0 ^^ 3) ?r) = Done (Inl (MaxRetriesHit (max_retries_msg [])))"
    using h4 by (auto simp del: funpow.simps simp add: numeral_3_eq_3 numeral_2_eq_2)
  with h1 h3 show ?thesis by blast
qed

end
