(* ===== verification/Release.thy ===== *)
theory Release
  imports Acquire
begin

text \<open>
  The release guard: \<open>Locksmith.prototype._release\<close> (lines 91--105 of
  \<open>src/index.js\<close>), the function handed to the caller bound to the request's key and
  expiry. While the lease is running it sends \<open>DEL fullKey\<close>, whose reply is only
  logged; after expiry it leaves the store alone and logs a late release. The result
  says which of the two effects the call has; \<open>System\<close> applies it.
\<close>

datatype release_effect = DelSent store_key | LateReleaseLog string

definition late_release_msg :: "string \<Rightarrow> string" where
  "late_release_msg key = ''you released your lock too late on key: '' @ key"

definition release :: "millis \<Rightarrow> locksmith \<Rightarrow> handle \<Rightarrow> release_effect" where
  "release ms ls h =
     (let fullKey = full_key ls (h_key h)
      in if lease_live ms (h_expires h) then DelSent fullKey
         else LateReleaseLog (late_release_msg (h_key h)))"

text \<open>
  \<open>handleDel\<close> (lines 98--100), the callback of the \<open>DEL\<close>: an error is printed with
  \<open>console.error(err)\<close>, a success prints nothing. The log is the \<open>console.error\<close>
  output.
\<close>

fun handle_del :: "redis_error option \<Rightarrow> string list \<Rightarrow> string list" where
  "handle_del None log = log"
| "handle_del (Some (RedisError m)) log = log @ [m]"

declare release_def [lock_model_defs] late_release_msg_def [lock_model_defs]

lemma release_live: "lease_live ms (h_expires h) \<Longrightarrow> release ms ls h = DelSent (full_key ls (h_key h))"
  by (simp add: release_def)

lemma release_late: "\<not> lease_live ms (h_expires h) \<Longrightarrow>
    release ms ls h = LateReleaseLog (late_release_msg (h_key h))"
  by (simp add: release_def)

end
