(* ===== verification/System.thy ===== *)
theory System
  imports Release
begin

text \<open>
  Several processes, each with its own \<open>Locksmith\<close> instance, sharing one Redis
  store, with a clock in milliseconds. Every call of \<open>lock\<close> is a request of the
  list \<open>sys_reqs\<close> (its position is its identity); \<open>sys_dels\<close> holds the \<open>DEL\<close>
  commands sent by releases and not yet executed; \<open>sys_log\<close> is what
  \<open>console.error\<close> printed. A step is one event: a new call of \<open>lock\<close>, the clock
  advancing, Redis executing or failing one pending command, the event loop running one
  due callback, the caller invoking its release function, or Redis executing a
  \<open>DEL\<close>. The order of events is free, as the source leaves it to Redis and the
  event loop.

  The environment fixes the deployment (the instances that may call \<open>lock\<close>) and two
  disciplines the source does not enforce: \<open>env_zero_latency\<close>, under which the clock
  does not advance while a command or reply is in flight, and
  \<open>env_single_release\<close>, under which a caller invokes its release function at most
  once.
\<close>

record sys =
  sys_store :: store
  sys_clock :: millis
  sys_reqs :: "req list"
  sys_dels :: "store_key list"
  sys_log :: "string list"

record env =
  env_procs :: "locksmith list"
  env_zero_latency :: bool
  env_single_release :: bool

text \<open>A command or a reply of the request is in flight.\<close>

fun in_flight :: "phase \<Rightarrow> bool" where
  "in_flight SetnxSent = True"
| "in_flight (SetnxReplied _) = True"
| "in_flight GetSent = True"
| "in_flight (GetReplied _) = True"
| "in_flight GetSetSent = True"
| "in_flight (GetSetReplied _) = True"
| "in_flight (Sleeping _) = False"
| "in_flight (Done _) = False"
| "in_flight (Released _) = False"

definition quiescent :: "sys \<Rightarrow> bool" where
  "quiescent s \<longleftrightarrow> (\<forall>r \<in> set (sys_reqs s). \<not> in_flight (rq_phase r)) \<and> sys_dels s = []"

text \<open>The caller invokes the release function of request \<open>i\<close> with handle \<open>h\<close>.\<close>

definition do_release :: "nat \<Rightarrow> handle \<Rightarrow> sys \<Rightarrow> sys" where
  "do_release i h s =
     (let r = sys_reqs s ! i;
          s' = s\<lparr>sys_reqs := (sys_reqs s)[i := r\<lparr>rq_phase := Released h\<rparr>]\<rparr>
      in case release (sys_clock s) (rq_ls r) h of
           DelSent k \<Rightarrow> s'\<lparr>sys_dels := sys_dels s @ [k]\<rparr>
         | LateReleaseLog m \<Rightarrow> s'\<lparr>sys_log := sys_log s @ [m]\<rparr>)"

declare do_release_def [lock_model_defs]

inductive sys_step :: "env \<Rightarrow> sys \<Rightarrow> sys \<Rightarrow> bool" for e :: env where
  call_lock: "ls \<in> set (env_procs e) \<Longrightarrow>
     sys_step e s (s\<lparr>sys_reqs := sys_reqs s @ [lock (sys_clock s) ls k]\<rparr>)"
| tick: "sys_clock s < ms \<Longrightarrow> (env_zero_latency e \<longrightarrow> quiescent s) \<Longrightarrow>
     sys_step e s (s\<lparr>sys_clock := ms\<rparr>)"
| exec: "i < length (sys_reqs s) \<Longrightarrow> redis_exec (sys_reqs s ! i) (sys_store s) = Some (r, st) \<Longrightarrow>
     sys_step e s (s\<lparr>sys_reqs := (sys_reqs s)[i := r], sys_store := st\<rparr>)"
| fail: "i < length (sys_reqs s) \<Longrightarrow> redis_fail err (sys_reqs s ! i) = Some r \<Longrightarrow>
     sys_step e s (s\<lparr>sys_reqs := (sys_reqs s)[i := r]\<rparr>)"
| run_callback: "i < length (sys_reqs s) \<Longrightarrow> callback (sys_clock s) (sys_reqs s ! i) = Some r \<Longrightarrow>
     sys_step e s (s\<lparr>sys_reqs := (sys_reqs s)[i := r]\<rparr>)"
| call_release: "i < length (sys_reqs s) \<Longrightarrow> rq_phase (sys_reqs s ! i) = Done (Inr h) \<Longrightarrow>
     sys_step e s (do_release i h s)"
| call_release_again: "\<not> env_single_release e \<Longrightarrow> i < length (sys_reqs s) \<Longrightarrow>
     rq_phase (sys_reqs s ! i) = Released h \<Longrightarrow> sys_step e s (do_release i h s)"
| del_exec: "k \<in> set (sys_dels s) \<Longrightarrow>
     sys_step e s (s\<lparr>sys_store := snd (redis_del k (sys_store s)),
                     sys_dels := remove1 k (sys_dels s), sys_log := handle_del None (sys_log s)\<rparr>)"
| del_fail: "k \<in> set (sys_dels s) \<Longrightarrow>
     sys_step e s (s\<lparr>sys_dels := remove1 k (sys_dels s), sys_log := handle_del (Some err) (sys_log s)\<rparr>)"

text \<open>A deployment starts with no request and any store content, at any clock.\<close>

definition init_sys :: "store \<Rightarrow> millis \<Rightarrow> sys" where
  "init_sys st ms = \<lparr>sys_store = st, sys_clock = ms, sys_reqs = [], sys_dels = [], sys_log = []\<rparr>"

declare init_sys_def [lock_model_defs]

inductive reachable :: "env \<Rightarrow> sys \<Rightarrow> bool" for e :: env where
  init: "reachable e (init_sys st ms)"
| step: "reachable e s \<Longrightarrow> sys_step e s s' \<Longrightarrow> reachable e s'"

inductive_cases sys_step_cases: "sys_step e s s'"

subsection \<open>Basic facts about steps\<close>

text \<open>A \<open>DEL\<close> that succeeds prints nothing.\<close>

lemma sys_step_del_exec: "k \<in> set (sys_dels s) \<Longrightarrow>
    sys_step e s (s\<lparr>sys_store := snd (redis_del k (sys_store s)), sys_dels := remove1 k (sys_dels s)\<rparr>)"
  using sys_step.del_exec [of k s e] by simp

lemma do_release_fields [simp]:
  "sys_reqs (do_release i h s) = (sys_reqs s)[i := (sys_reqs s ! i)\<lparr>rq_phase := Released h\<rparr>]"
  "sys_store (do_release i h s) = sys_store s"
  "sys_clock (do_release i h s) = sys_clock s"
  by (simp_all add: do_release_def Let_def split: release_effect.splits)

lemma do_release_dels:
  "sys_dels (do_release i h s) =
     (case release (sys_clock s) (rq_ls (sys_reqs s ! i)) h of
        DelSent k \<Rightarrow> sys_dels s @ [k] | LateReleaseLog m \<Rightarrow> sys_dels s)"
  by (simp add: do_release_def Let_def split: release_effect.splits)

lemma sys_step_clock_mono: "sys_step e s s' \<Longrightarrow> sys_clock s \<le> sys_clock s'"
  by (induction rule: sys_step.induct) auto

lemma sys_step_length_mono: "sys_step e s s' \<Longrightarrow> length (sys_reqs s) \<le> length (sys_reqs s')"
  by (induction rule: sys_step.induct) auto

subsection \<open>Every reachable request is well formed\<close>

definition sys_wf :: "sys \<Rightarrow> bool" where
  "sys_wf s \<longleftrightarrow> (\<forall>r \<in> set (sys_reqs s). wf_req r)"

lemma wf_req_release:
  "wf_req r \<Longrightarrow> rq_phase r = Done (Inr h) \<or> rq_phase r = Released h \<Longrightarrow>
     wf_req (r\<lparr>rq_phase := Released h\<rparr>)"
  by (auto simp: wf_req_def handle_of_def)

lemma sys_wf_update:
  "sys_reqs s' = (sys_reqs s)[i := r] \<Longrightarrow> sys_wf s \<Longrightarrow> i < length (sys_reqs s) \<Longrightarrow>
     (wf_req (sys_reqs s ! i) \<Longrightarrow> wf_req r) \<Longrightarrow> sys_wf s'"
  unfolding sys_wf_def by (auto dest!: in_set_list_updateD)

lemma sys_wf_nth: "sys_wf s \<Longrightarrow> i < length (sys_reqs s) \<Longrightarrow> wf_req (sys_reqs s ! i)"
  by (simp add: sys_wf_def)

lemma sys_wf_append: "sys_wf (s\<lparr>sys_reqs := sys_reqs s @ [r]\<rparr>) \<longleftrightarrow> sys_wf s \<and> wf_req r"
  unfolding sys_wf_def by auto

lemma sys_step_wf: "sys_step e s s' \<Longrightarrow> sys_wf s \<Longrightarrow> sys_wf s'"
proof (induction rule: sys_step.induct)
  case (call_lock ls s k)
  then show ?case by (simp only: sys_wf_append wf_req_lock simp_thms)
next
  case (exec i s r st)
  then have "wf_req r" using wf_req_redis_exec sys_wf_nth by blast
  with exec show ?case by (rule_tac sys_wf_update [of _ s i r]) simp_all
next
  case (fail i s err r)
  then have "wf_req r" using wf_req_redis_fail sys_wf_nth by blast
  with fail show ?case by (rule_tac sys_wf_update [of _ s i r]) simp_all
next
  case (run_callback i s r)
  then have "wf_req r" using wf_req_callback sys_wf_nth by blast
  with run_callback show ?case by (rule_tac sys_wf_update [of _ s i r]) simp_all
next
  case (call_release i s h)
  then have "wf_req ((sys_reqs s ! i)\<lparr>rq_phase := Released h\<rparr>)"
    using wf_req_release sys_wf_nth by blast
  with call_release show ?case by (rule_tac sys_wf_update [of _ s i]) simp_all
next
  case (call_release_again i s h)
  then have "wf_req ((sys_reqs s ! i)\<lparr>rq_phase := Released h\<rparr>)"
    using wf_req_release sys_wf_nth by blast
  with call_release_again show ?case by (rule_tac sys_wf_update [of _ s i]) simp_all
qed (simp_all add: sys_wf_def)

lemma reachable_wf: "reachable e s \<Longrightarrow> sys_wf s"
proof (induction rule: reachable.induct)
  case (init st ms)
  show ?case by (simp add: sys_wf_def init_sys_def)
next
  case (step s s')
  then show ?case using sys_step_wf by blast
qed

subsection \<open>The release guard in the system\<close>

text \<open>
  C3. A release called after the lease has expired leaves the store and the pending
  \<open>DEL\<close>s untouched and only logs the late release: the key may already belong to a
  process that took it over.
\<close>

theorem late_release_keeps_store:
  assumes "\<not> lease_live (sys_clock s) (h_expires h)"
  shows "sys_store (do_release i h s) = sys_store s \<and> sys_dels (do_release i h s) = sys_dels s \<and>
     sys_log (do_release i h s) = sys_log s @ [late_release_msg (h_key h)]"
  using assms by (simp add: do_release_def Let_def release_def)

text \<open>
  C4. A release called while the lease runs sends exactly one \<open>DEL\<close> of the
  request's full key and logs nothing; the store changes only when Redis executes it.
\<close>

theorem timely_release_deletes:
  assumes "lease_live (sys_clock s) (h_expires h)"
  shows "sys_dels (do_release i h s) = sys_dels s @ [full_key (rq_ls (sys_reqs s ! i)) (h_key h)] \<and>
     sys_store (do_release i h s) = sys_store s \<and> sys_log (do_release i h s) = sys_log s"
  using assms by (simp add: do_release_def Let_def release_def)

subsection \<open>Properties of every reachable state\<close>

text \<open>
  C6. A request that failed with \<open>MaxRetriesHit\<close> has counted exactly
  \<open>max(1, retries + 2)\<close> retries: one more than the \<open>retries + 1\<close> an
  "increment, then fail when the counter exceeds the maximum" policy gives.
\<close>

theorem max_retries_exact:
  assumes "reachable e s" "r \<in> set (sys_reqs s)" "rq_phase r = Done (Inl (MaxRetriesHit m))"
  shows "int (rq_retries r) = max 1 (ls_retries (rq_ls r) + 2)"
proof -
  have "wf_req r" using reachable_wf [OF assms(1)] assms(2) by (simp add: sys_wf_def)
  with assms(3) show ?thesis by (simp add: wf_req_def)
qed

text \<open>
  C7. A request that is still running has counted at most \<open>retries + 1\<close> retries.
\<close>

theorem running_retries_bound:
  assumes "reachable e s" "r \<in> set (sys_reqs s)" "\<not> finished (rq_phase r)"
  shows "int (rq_retries r) \<le> max 0 (ls_retries (rq_ls r) + 1)"
  using reachable_wf [OF assms(1)] assms(2,3) wf_req_running by (simp add: sys_wf_def)

end
