(* ===== verification/Safety.thy ===== *)
theory Safety
  imports System
begin

text \<open>
  Mutual exclusion of the lock protocol in the idealised deployment: all instances
  use the same positive lease timeout, the clock does not advance while a command or a
  reply is in flight (\<open>env_zero_latency\<close>), and every caller releases at most once
  (\<open>env_single_release\<close>). Under these conditions no two requests ever hold
  unexpired locks on the same store key. The proof is an inductive invariant
  (\<open>lock_inv\<close>): a request that holds, or whose winning reply is about to be
  handled, is a claim; the store keeps a lease at least as long as every live claim;
  live claims on one key are unique; a pending \<open>DEL\<close> is for a key nobody holds and
  whose stored lease is still running.
\<close>

definition uniform_timeout :: "env \<Rightarrow> int \<Rightarrow> bool" where
  "uniform_timeout e T \<longleftrightarrow> 0 < T \<and> (\<forall>ls \<in> set (env_procs e). ls_timeout ls = T)"

definition ideal_env :: "env \<Rightarrow> bool" where
  "ideal_env e \<longleftrightarrow> env_zero_latency e \<and> env_single_release e"

text \<open>The caller of \<open>r\<close> holds a lock whose lease is running at \<open>ms\<close>.\<close>

definition holds :: "millis \<Rightarrow> req \<Rightarrow> bool" where
  "holds ms r \<longleftrightarrow> (\<exists>h. rq_phase r = Done (Inr h) \<and> lease_live ms (h_expires h))"

text \<open>
  A claim: the request has been granted, or has a winning reply whose handler has not
  run yet (\<open>handleSetnx\<close> with reply 1, \<open>handleGetSet\<close> with an expired value).
\<close>

fun claims_phase :: "millis \<Rightarrow> phase \<Rightarrow> bool" where
  "claims_phase ms (Done (Inr h)) = True"
| "claims_phase ms (SetnxReplied (Inr n)) = (n = 1)"
| "claims_phase ms (GetSetReplied (Inr v)) = (\<not> js_lt_reply (unix ms) v)"
| "claims_phase ms _ = False"

definition live_claim :: "millis \<Rightarrow> req \<Rightarrow> bool" where
  "live_claim ms r \<longleftrightarrow> claims_phase ms (rq_phase r) \<and> lease_live ms (rq_expires r)"

definition unique_live :: "millis \<Rightarrow> req list \<Rightarrow> bool" where
  "unique_live ms rs \<longleftrightarrow>
     (\<forall>i < length rs. \<forall>j < length rs. live_claim ms (rs ! i) \<longrightarrow> live_claim ms (rs ! j) \<longrightarrow>
        rq_full (rs ! i) = rq_full (rs ! j) \<longrightarrow> i = j)"

definition req_ok :: "int \<Rightarrow> store \<Rightarrow> millis \<Rightarrow> req \<Rightarrow> bool" where
  "req_ok T st ms r \<longleftrightarrow>
     ls_timeout (rq_ls r) = T \<and> rq_expires r \<le> unix ms + T \<and>
     (sent_phase (rq_phase r) \<longrightarrow> rq_expires r = unix ms + T) \<and>
     (live_claim ms r \<longrightarrow> (\<exists>v. st (rq_full r) = Some v \<and> rq_expires r \<le> v))"

definition dels_ok :: "store \<Rightarrow> millis \<Rightarrow> req list \<Rightarrow> store_key list \<Rightarrow> bool" where
  "dels_ok st ms rs ds \<longleftrightarrow> distinct ds \<and>
     (\<forall>k \<in> set ds. (\<exists>v. st k = Some v \<and> unix ms < v) \<and>
        (\<forall>r \<in> set rs. rq_full r = k \<longrightarrow> \<not> live_claim ms r))"

definition lock_inv :: "int \<Rightarrow> sys \<Rightarrow> bool" where
  "lock_inv T s \<longleftrightarrow>
     (\<forall>r \<in> set (sys_reqs s). req_ok T (sys_store s) (sys_clock s) r) \<and>
     unique_live (sys_clock s) (sys_reqs s) \<and>
     dels_ok (sys_store s) (sys_clock s) (sys_reqs s) (sys_dels s)"

subsection \<open>Claims\<close>

lemma holds_live_claim: "holds ms r \<Longrightarrow> wf_req r \<Longrightarrow> live_claim ms r"
  by (auto simp: holds_def live_claim_def wf_req_def handle_of_def)

lemma not_in_flight_claims_phase:
  "\<not> in_flight p \<Longrightarrow> claims_phase ms' p = claims_phase ms p"
  by (cases "(ms, p)" rule: claims_phase.cases) auto

lemma sent_not_claim: "sent_phase (rq_phase r) \<Longrightarrow> \<not> live_claim ms r"
  by (cases "rq_phase r") (auto simp: live_claim_def)

lemma lock_not_claim: "\<not> live_claim ms' (lock ms ls k)"
  by (simp add: lock_def aquire_def sent_not_claim)

lemma release_not_claim: "\<not> live_claim ms (r\<lparr>rq_phase := Released h\<rparr>)"
  by (simp add: live_claim_def)

subsection \<open>Uniqueness of live claims under updates\<close>

lemma unique_live_append:
  "unique_live ms rs \<Longrightarrow> \<not> live_claim ms r \<Longrightarrow> unique_live ms (rs @ [r])"
  unfolding unique_live_def by (auto simp: nth_append)

lemma unique_live_update_weaker:
  assumes "unique_live ms rs" "i < length rs"
    and "live_claim ms r \<Longrightarrow> live_claim ms (rs ! i) \<and> rq_full r = rq_full (rs ! i)"
  shows "unique_live ms (rs[i := r])"
  using assms unfolding unique_live_def by (metis length_list_update nth_list_update)

lemma unique_live_update_fresh:
  assumes "unique_live ms rs" "i < length rs"
    and "\<forall>j < length rs. j \<noteq> i \<longrightarrow> live_claim ms (rs ! j) \<longrightarrow> rq_full (rs ! j) \<noteq> rq_full r"
  shows "unique_live ms (rs[i := r])"
  using assms unfolding unique_live_def by (metis length_list_update nth_list_update)

lemma unique_live_clock:
  "unique_live ms rs \<Longrightarrow> (\<And>r. r \<in> set rs \<Longrightarrow> live_claim ms' r \<Longrightarrow> live_claim ms r) \<Longrightarrow>
     unique_live ms' rs"
  unfolding unique_live_def by (meson nth_mem)

subsection \<open>Each step keeps the invariant\<close>

lemma sent_in_flight: "sent_phase p \<Longrightarrow> in_flight p"
  by (cases p) auto

lemma lock_inv_call_lock:
  assumes "lock_inv T s" "ls_timeout ls = T"
  shows "lock_inv T (s\<lparr>sys_reqs := sys_reqs s @ [lock (sys_clock s) ls k]\<rparr>)"
proof -
  have nc: "\<not> live_claim (sys_clock s) (lock (sys_clock s) ls k)" by (rule lock_not_claim)
  have "req_ok T (sys_store s) (sys_clock s) (lock (sys_clock s) ls k)"
    using nc assms(2) unfolding req_ok_def by (simp add: lock_def aquire_def)
  with assms(1) show ?thesis
    by (auto simp: lock_inv_def dels_ok_def lock_not_claim intro: unique_live_append)
qed

lemma lock_inv_tick:
  assumes "lock_inv T s" "quiescent s" "sys_clock s < ms"
  shows "lock_inv T (s\<lparr>sys_clock := ms\<rparr>)"
proof -
  have earlier: "live_claim (sys_clock s) r" if "r \<in> set (sys_reqs s)" "live_claim ms r" for r
  proof -
    from that(1) assms(2) have "\<not> in_flight (rq_phase r)" by (simp add: quiescent_def)
    with that(2) assms(3) show ?thesis
      by (auto simp: live_claim_def not_in_flight_claims_phase [of _ ms "sys_clock s"]
               intro: lease_live_antimono)
  qed
  have mono: "unix (sys_clock s) \<le> unix ms" using assms(3) by (simp add: unix_mono)
  have "req_ok T (sys_store s) ms r" if "r \<in> set (sys_reqs s)" for r
  proof -
    from that assms(1) have ok: "req_ok T (sys_store s) (sys_clock s) r" by (simp add: lock_inv_def)
    from that assms(2) have "\<not> sent_phase (rq_phase r)"
      by (auto simp: quiescent_def dest: sent_in_flight)
    with ok mono earlier [OF that] show ?thesis by (auto simp: req_ok_def)
  qed
  moreover have "unique_live ms (sys_reqs s)"
    using assms(1) earlier by (auto simp: lock_inv_def intro: unique_live_clock)
  ultimately show ?thesis using assms(2) by (simp add: lock_inv_def quiescent_def dels_ok_def)
qed

lemma lock_inv_update_weaker:
  assumes "lock_inv T s" "i < length (sys_reqs s)" "req_ok T (sys_store s) (sys_clock s) r"
    and "live_claim (sys_clock s) r \<Longrightarrow>
           live_claim (sys_clock s) (sys_reqs s ! i) \<and> rq_full r = rq_full (sys_reqs s ! i)"
  shows "lock_inv T (s\<lparr>sys_reqs := (sys_reqs s)[i := r]\<rparr>)"
proof -
  have "unique_live (sys_clock s) ((sys_reqs s)[i := r])"
    using assms by (auto simp: lock_inv_def intro: unique_live_update_weaker)
  moreover have "dels_ok (sys_store s) (sys_clock s) ((sys_reqs s)[i := r]) (sys_dels s)"
    using assms(1,2,4) unfolding lock_inv_def dels_ok_def
    by (metis in_set_list_updateD nth_mem)
  moreover have "\<forall>x \<in> set ((sys_reqs s)[i := r]). req_ok T (sys_store s) (sys_clock s) x"
    using assms(1,3) by (auto simp: lock_inv_def dest!: in_set_list_updateD)
  ultimately show ?thesis by (simp add: lock_inv_def)
qed

lemma callback_claim:
  assumes "callback ms r = Some r'" "claims_phase ms (rq_phase r')"
  shows "claims_phase ms (rq_phase r)"
proof (cases "rq_phase r")
  case (SetnxReplied rep)
  with assms show ?thesis by (cases rep) (auto simp: callback_def grant_def split: if_splits)
next
  case (GetReplied rep)
  with assms show ?thesis by (cases rep) (auto simp: callback_def retry_def split: if_splits)
next
  case (GetSetReplied rep)
  with assms show ?thesis by (cases rep) (auto simp: callback_def retry_def grant_def split: if_splits)
next
  case (Sleeping w)
  with assms show ?thesis by (auto simp: callback_def aquire_def split: if_splits)
qed (use assms in \<open>auto simp: callback_def\<close>)

lemma lock_inv_callback:
  assumes inv: "lock_inv T s" and i: "i < length (sys_reqs s)"
    and cb: "callback (sys_clock s) (sys_reqs s ! i) = Some r"
  shows "lock_inv T (s\<lparr>sys_reqs := (sys_reqs s)[i := r]\<rparr>)"
proof (rule lock_inv_update_weaker [OF inv i])
  let ?ms = "sys_clock s" and ?cur = "sys_reqs s ! i"
  have ok0: "req_ok T (sys_store s) ?ms ?cur" using inv i by (simp add: lock_inv_def)
  have fr: "rq_ls r = rq_ls ?cur" "rq_key r = rq_key ?cur"
    "if sent_phase (rq_phase r) then rq_expires r = expiry_at ?ms (ls_timeout (rq_ls ?cur))
     else rq_expires r = rq_expires ?cur"
    using callback_frame [OF cb] by simp_all
  have same: "live_claim ?ms ?cur \<and> rq_full r = rq_full ?cur" if "live_claim ?ms r"
  proof -
    from that have "\<not> sent_phase (rq_phase r)" using sent_not_claim by blast
    with fr have "rq_expires r = rq_expires ?cur" by simp
    with that callback_claim [OF cb] fr show ?thesis by (simp add: live_claim_def rq_full_def)
  qed
  then show "live_claim ?ms r \<Longrightarrow> live_claim ?ms ?cur \<and> rq_full r = rq_full ?cur" .
  show "req_ok T (sys_store s) ?ms r"
    using ok0 fr same sent_not_claim [of r ?ms] unfolding req_ok_def by (auto split: if_splits)
qed

lemma lock_inv_fail:
  assumes inv: "lock_inv T s" and i: "i < length (sys_reqs s)"
    and fl: "redis_fail err (sys_reqs s ! i) = Some r"
  shows "lock_inv T (s\<lparr>sys_reqs := (sys_reqs s)[i := r]\<rparr>)"
proof (rule lock_inv_update_weaker [OF inv i])
  let ?ms = "sys_clock s" and ?cur = "sys_reqs s ! i"
  have nc: "\<not> live_claim ?ms r"
    using fl by (cases "rq_phase ?cur") (auto simp: redis_fail_def live_claim_def split: sum.splits)
  then show "live_claim ?ms r \<Longrightarrow> live_claim ?ms ?cur \<and> rq_full r = rq_full ?cur" by simp
  have ok0: "req_ok T (sys_store s) ?ms ?cur" using inv i by (simp add: lock_inv_def)
  with redis_fail_frame [OF fl] nc show "req_ok T (sys_store s) ?ms r"
    by (simp add: req_ok_def)
qed

lemma req_ok_store:
  "req_ok T st ms x \<Longrightarrow> (live_claim ms x \<Longrightarrow> \<exists>v. st' (rq_full x) = Some v \<and> rq_expires x \<le> v) \<Longrightarrow>
     req_ok T st' ms x"
  by (simp add: req_ok_def)

lemma live_claim_stored:
  "req_ok T st ms x \<Longrightarrow> live_claim ms x \<Longrightarrow> \<exists>v. st (rq_full x) = Some v \<and> unix ms < v"
  by (force simp: req_ok_def live_claim_def lease_live_def)

lemma lock_inv_exec_store_unchanged:
  assumes inv: "lock_inv T s" and i: "i < length (sys_reqs s)"
    and r: "rq_ls r = rq_ls (sys_reqs s ! i)" "rq_key r = rq_key (sys_reqs s ! i)"
      "rq_expires r = rq_expires (sys_reqs s ! i)" "\<not> sent_phase (rq_phase r)"
      "\<not> live_claim (sys_clock s) r"
  shows "lock_inv T (s\<lparr>sys_reqs := (sys_reqs s)[i := r], sys_store := sys_store s\<rparr>)"
proof -
  have "lock_inv T (s\<lparr>sys_reqs := (sys_reqs s)[i := r]\<rparr>)"
  proof (rule lock_inv_update_weaker [OF inv i])
    have "req_ok T (sys_store s) (sys_clock s) (sys_reqs s ! i)" using inv i by (simp add: lock_inv_def)
    with r show "req_ok T (sys_store s) (sys_clock s) r" by (simp add: req_ok_def)
  qed (use r in simp)
  then show ?thesis by simp
qed

lemma lock_inv_setnx_won:
  assumes inv: "lock_inv T s" and i: "i < length (sys_reqs s)"
    and sent: "rq_phase (sys_reqs s ! i) = SetnxSent"
    and absent: "sys_store s (rq_full (sys_reqs s ! i)) = None"
  defines "r \<equiv> (sys_reqs s ! i)\<lparr>rq_phase := SetnxReplied (Inr 1)\<rparr>"
    and "st' \<equiv> (sys_store s)(rq_full (sys_reqs s ! i) \<mapsto> rq_expires (sys_reqs s ! i))"
  shows "lock_inv T (s\<lparr>sys_reqs := (sys_reqs s)[i := r], sys_store := st'\<rparr>)"
proof -
  let ?ms = "sys_clock s" and ?cur = "sys_reqs s ! i" and ?st = "sys_store s"
  let ?k = "rq_full ?cur"
  have oks: "\<forall>x \<in> set (sys_reqs s). req_ok T ?st ?ms x" using inv by (simp add: lock_inv_def)
  have other: "rq_full x \<noteq> ?k" if "x \<in> set (sys_reqs s)" "live_claim ?ms x" for x
    using live_claim_stored [of T ?st ?ms x] oks that absent by auto
  have "req_ok T st' ?ms x" if "x \<in> set ((sys_reqs s)[i := r])" for x
  proof (cases "x = r")
    case True
    have "req_ok T ?st ?ms ?cur" using oks i by simp
    with True show ?thesis using sent by (simp add: req_ok_def r_def st'_def)
  next
    case False
    with that have x: "x \<in> set (sys_reqs s)" by (auto dest: in_set_list_updateD)
    have ok: "req_ok T ?st ?ms x" using oks x by simp
    show ?thesis
    proof (rule req_ok_store [OF ok])
      assume "live_claim ?ms x"
      with ok other [OF x] show "\<exists>v. st' (rq_full x) = Some v \<and> rq_expires x \<le> v"
        by (simp add: req_ok_def st'_def)
    qed
  qed
  moreover have "unique_live ?ms ((sys_reqs s)[i := r])"
    using inv i other by (auto simp: lock_inv_def r_def intro!: unique_live_update_fresh)
  moreover have "dels_ok st' ?ms ((sys_reqs s)[i := r]) (sys_dels s)"
  proof -
    have "?k \<notin> set (sys_dels s)"
      using inv absent by (auto simp: lock_inv_def dels_ok_def)
    then show ?thesis using inv
      by (auto simp: lock_inv_def dels_ok_def st'_def r_def dest!: in_set_list_updateD)
  qed
  ultimately show ?thesis by (simp add: lock_inv_def)
qed

lemma lock_inv_getset:
  assumes inv: "lock_inv T s" and T: "0 < T" and i: "i < length (sys_reqs s)"
    and sent: "rq_phase (sys_reqs s ! i) = GetSetSent"
  defines "r \<equiv> (sys_reqs s ! i)\<lparr>rq_phase := GetSetReplied (Inr (sys_store s (rq_full (sys_reqs s ! i))))\<rparr>"
    and "st' \<equiv> (sys_store s)(rq_full (sys_reqs s ! i) \<mapsto> rq_expires (sys_reqs s ! i))"
  shows "lock_inv T (s\<lparr>sys_reqs := (sys_reqs s)[i := r], sys_store := st'\<rparr>)"
proof -
  let ?ms = "sys_clock s" and ?cur = "sys_reqs s ! i" and ?st = "sys_store s"
  let ?k = "rq_full ?cur"
  have oks: "\<forall>x \<in> set (sys_reqs s). req_ok T ?st ?ms x" using inv by (simp add: lock_inv_def)
  have ok0: "req_ok T ?st ?ms ?cur" using oks i by simp
  have e0: "rq_expires ?cur = unix ?ms + T" using ok0 sent by (simp add: req_ok_def)
  have dels: "dels_ok ?st ?ms (sys_reqs s) (sys_dels s)" using inv by (simp add: lock_inv_def)
  have keep: "req_ok T st' ?ms x"
    if "x \<in> set (sys_reqs s)" "live_claim ?ms x \<Longrightarrow> rq_full x = ?k \<Longrightarrow> rq_expires x \<le> rq_expires ?cur" for x
  proof -
    have ok: "req_ok T ?st ?ms x" using oks that(1) by simp
    show ?thesis
    proof (rule req_ok_store [OF ok])
      assume "live_claim ?ms x"
      with ok that(2) show "\<exists>v. st' (rq_full x) = Some v \<and> rq_expires x \<le> v"
        by (cases "rq_full x = ?k") (auto simp: req_ok_def st'_def)
    qed
  qed
  show ?thesis
  proof (cases "js_lt_reply (unix ?ms) (?st ?k)")
    case True
    then have nc: "\<not> live_claim ?ms r" by (simp add: r_def live_claim_def)
    have "req_ok T st' ?ms x" if "x \<in> set ((sys_reqs s)[i := r])" for x
    proof (cases "x = r")
      case True
      with ok0 nc show ?thesis by (simp add: req_ok_def r_def)
    next
      case False
      with that have x: "x \<in> set (sys_reqs s)" by (auto dest: in_set_list_updateD)
      have "rq_expires x \<le> rq_expires ?cur" using oks x e0 by (simp add: req_ok_def)
      with x show ?thesis by (intro keep) auto
    qed
    moreover have "unique_live ?ms ((sys_reqs s)[i := r])"
      using inv i nc by (auto simp: lock_inv_def intro!: unique_live_update_weaker)
    moreover have "dels_ok st' ?ms ((sys_reqs s)[i := r]) (sys_dels s)"
      using dels nc T e0 by (auto simp: dels_ok_def st'_def dest!: in_set_list_updateD)
    ultimately show ?thesis by (simp add: lock_inv_def)
  next
    case False
    have other: "rq_full x \<noteq> ?k" if "x \<in> set (sys_reqs s)" "live_claim ?ms x" for x
      using live_claim_stored [of T ?st ?ms x] oks that False by auto
    have notdel: "?k \<notin> set (sys_dels s)"
      using dels False by (auto simp: dels_ok_def)
    have "req_ok T st' ?ms x" if "x \<in> set ((sys_reqs s)[i := r])" for x
    proof (cases "x = r")
      case True
      with ok0 sent show ?thesis by (simp add: req_ok_def r_def st'_def)
    next
      case False
      with that have x: "x \<in> set (sys_reqs s)" by (auto dest: in_set_list_updateD)
      with other show ?thesis by (intro keep) auto
    qed
    moreover have "unique_live ?ms ((sys_reqs s)[i := r])"
      using inv i other by (auto simp: lock_inv_def r_def intro!: unique_live_update_fresh)
    moreover have "dels_ok st' ?ms ((sys_reqs s)[i := r]) (sys_dels s)"
      using dels notdel by (auto simp: dels_ok_def st'_def r_def dest!: in_set_list_updateD)
    ultimately show ?thesis by (simp add: lock_inv_def)
  qed
qed

lemma lock_inv_release:
  assumes inv: "lock_inv T s" and wf: "sys_wf s" and i: "i < length (sys_reqs s)"
    and granted: "rq_phase (sys_reqs s ! i) = Done (Inr h)"
  shows "lock_inv T (do_release i h s)"
proof -
  let ?ms = "sys_clock s" and ?cur = "sys_reqs s ! i" and ?st = "sys_store s"
  let ?r = "?cur\<lparr>rq_phase := Released h\<rparr>" and ?rs = "(sys_reqs s)[i := ?cur\<lparr>rq_phase := Released h\<rparr>]"
  have "wf_req ?cur" using wf i by (rule sys_wf_nth)
  with granted have h: "h = handle_of ?cur" by (simp add: wf_req_def)
  have oks: "\<forall>x \<in> set (sys_reqs s). req_ok T ?st ?ms x" using inv by (simp add: lock_inv_def)
  have ok0: "req_ok T ?st ?ms ?cur" using oks i by simp
  have dels: "dels_ok ?st ?ms (sys_reqs s) (sys_dels s)" using inv by (simp add: lock_inv_def)
  have uniq: "unique_live ?ms (sys_reqs s)" using inv by (simp add: lock_inv_def)
  have okr: "\<forall>x \<in> set ?rs. req_ok T ?st ?ms x"
    using oks ok0 release_not_claim [where ms = "?ms" and r = "?cur" and h = h] by (auto simp: req_ok_def dest!: in_set_list_updateD)
  have uniq': "unique_live ?ms ?rs"
    using uniq i release_not_claim [where ms = "?ms" and r = "?cur" and h = h] by (intro unique_live_update_weaker) auto
  show ?thesis
  proof (cases "lease_live ?ms (h_expires h)")
    case True
    let ?k = "rq_full ?cur"
    have rel: "release ?ms (rq_ls ?cur) h = DelSent ?k"
      using True h by (simp add: release_def handle_of_def rq_full_def)
    have live0: "live_claim ?ms ?cur" using True granted h by (simp add: live_claim_def handle_of_def)
    have notdel: "?k \<notin> set (sys_dels s)"
      using dels live0 i by (auto simp: dels_ok_def)
    have stored: "\<exists>v. ?st ?k = Some v \<and> unix ?ms < v"
      using live_claim_stored [OF ok0 live0] .
    have none: "\<not> live_claim ?ms x" if "x \<in> set ?rs" "rq_full x = ?k" for x
    proof
      assume lx: "live_claim ?ms x"
      from in_set_list_update_other [OF that(1)] release_not_claim [where ms = "?ms" and r = "?cur" and h = h] lx
      obtain j where "j < length (sys_reqs s)" "j \<noteq> i" "x = sys_reqs s ! j" by auto
      with uniq i live0 lx that(2) show False by (auto simp: unique_live_def)
    qed
    have "dels_ok ?st ?ms ?rs (sys_dels s @ [?k])"
      using dels notdel stored none by (auto simp: dels_ok_def dest!: in_set_list_updateD)
    with okr uniq' rel show ?thesis by (simp add: lock_inv_def do_release_dels)
  next
    case False
    then have rel: "\<exists>m. release ?ms (rq_ls ?cur) h = LateReleaseLog m" by (simp add: release_def)
    have "dels_ok ?st ?ms ?rs (sys_dels s)"
      using dels release_not_claim [where ms = "?ms" and r = "?cur" and h = h] by (auto simp: dels_ok_def dest!: in_set_list_updateD)
    with okr uniq' rel show ?thesis by (auto simp: lock_inv_def do_release_dels)
  qed
qed

lemma lock_inv_del_exec:
  assumes inv: "lock_inv T s" and k: "k \<in> set (sys_dels s)"
  shows "lock_inv T (s\<lparr>sys_store := snd (redis_del k (sys_store s)), sys_dels := remove1 k (sys_dels s)\<rparr>)"
proof -
  let ?ms = "sys_clock s" and ?st = "sys_store s"
  have dels: "dels_ok ?st ?ms (sys_reqs s) (sys_dels s)" using inv by (simp add: lock_inv_def)
  have st': "snd (redis_del k ?st) = ?st(k := None)" by (simp add: redis_del_def)
  have "req_ok T (?st(k := None)) ?ms x" if "x \<in> set (sys_reqs s)" for x
  proof -
    have ok: "req_ok T ?st ?ms x" using inv that by (simp add: lock_inv_def)
    have "live_claim ?ms x \<Longrightarrow> rq_full x \<noteq> k" using dels k that by (auto simp: dels_ok_def)
    with ok show ?thesis by (rule_tac req_ok_store [OF ok]) (auto simp: req_ok_def)
  qed
  moreover have "dels_ok (?st(k := None)) ?ms (sys_reqs s) (remove1 k (sys_dels s))"
    using dels by (auto simp: dels_ok_def set_remove1_eq)
  ultimately show ?thesis using inv st' by (simp add: lock_inv_def)
qed

lemma lock_inv_del_fail:
  assumes inv: "lock_inv T s"
  shows "lock_inv T (s\<lparr>sys_dels := remove1 k (sys_dels s), sys_log := l\<rparr>)"
  using inv by (auto simp: lock_inv_def dels_ok_def dest: set_remove1_subset [THEN subsetD])

lemma lock_inv_exec:
  assumes inv: "lock_inv T s" and T: "0 < T" and i: "i < length (sys_reqs s)"
    and ex: "redis_exec (sys_reqs s ! i) (sys_store s) = Some (r, st)"
  shows "lock_inv T (s\<lparr>sys_reqs := (sys_reqs s)[i := r], sys_store := st\<rparr>)"
  using ex
proof (cases rule: redis_exec_cases)
  case setnx_won
  then show ?thesis using lock_inv_setnx_won [OF inv i] by simp
next
  case (setnx_lost v)
  have "lock_inv T (s\<lparr>sys_reqs := (sys_reqs s)[i := r], sys_store := sys_store s\<rparr>)"
    by (rule lock_inv_exec_store_unchanged [OF inv i]) (use setnx_lost in \<open>auto simp: live_claim_def\<close>)
  with setnx_lost show ?thesis by simp
next
  case get
  have "lock_inv T (s\<lparr>sys_reqs := (sys_reqs s)[i := r], sys_store := sys_store s\<rparr>)"
    by (rule lock_inv_exec_store_unchanged [OF inv i]) (use get in \<open>auto simp: live_claim_def\<close>)
  with get show ?thesis by simp
next
  case getset
  then show ?thesis using lock_inv_getset [OF inv T i] by simp
qed

lemma sys_step_lock_inv:
  assumes "sys_step e s s'" "ideal_env e" "uniform_timeout e T" "sys_wf s" "lock_inv T s"
  shows "lock_inv T s'"
  using assms
proof (induction rule: sys_step.induct)
  case (call_lock ls s k)
  then show ?case by (intro lock_inv_call_lock) (auto simp: uniform_timeout_def)
next
  case (tick s ms)
  then show ?case by (intro lock_inv_tick) (auto simp: ideal_env_def)
next
  case (exec i s r st)
  then show ?case by (intro lock_inv_exec) (auto simp: uniform_timeout_def)
next
  case (fail i s err r)
  then show ?case by (intro lock_inv_fail)
next
  case (run_callback i s r)
  then show ?case by (intro lock_inv_callback)
next
  case (call_release i s h)
  then show ?case by (intro lock_inv_release)
next
  case (call_release_again i s h)
  then show ?case by (simp add: ideal_env_def)
next
  case (del_exec k s)
  then show ?case by (simp add: lock_inv_del_exec)
next
  case (del_fail k s m)
  then show ?case by (intro lock_inv_del_fail)
qed

lemma reachable_lock_inv:
  assumes "reachable e s" "ideal_env e" "uniform_timeout e T"
  shows "lock_inv T s"
  using assms
proof (induction rule: reachable.induct)
  case (init st ms)
  show ?case by (simp add: lock_inv_def init_sys_def unique_live_def dels_ok_def)
next
  case (step s s')
  then show ?case using sys_step_lock_inv reachable_wf by blast
qed

subsection \<open>Mutual exclusion\<close>

text \<open>
  C1. In a deployment whose instances share one positive lease timeout, where the clock
  does not advance while a command or reply is in flight and every caller releases at
  most once, no two requests hold unexpired locks on the same store key at the same
  time: two holders of the same full key are the same request.
\<close>

theorem mutual_exclusion:
  assumes "reachable e s" "ideal_env e" "uniform_timeout e T"
    and "i < length (sys_reqs s)" "j < length (sys_reqs s)"
    and "holds (sys_clock s) (sys_reqs s ! i)" "holds (sys_clock s) (sys_reqs s ! j)"
    and "rq_full (sys_reqs s ! i) = rq_full (sys_reqs s ! j)"
  shows "i = j"
proof -
  have "lock_inv T s" using assms(1-3) by (rule reachable_lock_inv)
  then have uniq: "unique_live (sys_clock s) (sys_reqs s)" by (simp add: lock_inv_def)
  have wf: "sys_wf s" using assms(1) by (rule reachable_wf)
  have "live_claim (sys_clock s) (sys_reqs s ! i)" "live_claim (sys_clock s) (sys_reqs s ! j)"
    using assms(4-7) wf by (simp_all add: holds_live_claim sys_wf_nth)
  with uniq assms(4,5,8) show ?thesis by (simp add: unique_live_def)
qed

text \<open>
  C8. Under the same conditions, the lock a caller holds is backed by the store: while
  the lease of its handle runs, the store key of the handle's key holds a running lease
  that lasts at least as long as the handle's, and no \<open>DEL\<close> of that key is pending.
\<close>

theorem granted_lease_stored:
  assumes "reachable e s" "ideal_env e" "uniform_timeout e T"
    and "r \<in> set (sys_reqs s)" "rq_phase r = Done (Inr h)" "lease_live (sys_clock s) (h_expires h)"
  shows "\<exists>v. sys_store s (full_key (rq_ls r) (h_key h)) = Some v \<and> h_expires h \<le> v \<and>
    lease_live (sys_clock s) v \<and> full_key (rq_ls r) (h_key h) \<notin> set (sys_dels s)"
proof -
  have inv: "lock_inv T s" using assms(1-3) by (rule reachable_lock_inv)
  have "wf_req r" using reachable_wf [OF assms(1)] assms(4) by (simp add: sys_wf_def)
  then have h: "h = \<lparr>h_key = rq_key r, h_expires = rq_expires r\<rparr>"
    using assms(5) by (simp add: wf_req_def handle_of_def)
  have claim: "live_claim (sys_clock s) r"
    using assms(5,6) h by (simp add: live_claim_def)
  then obtain v where v: "sys_store s (rq_full r) = Some v" "rq_expires r \<le> v"
    using inv assms(4) by (auto simp: lock_inv_def req_ok_def)
  have "rq_full r \<notin> set (sys_dels s)"
    using inv assms(4) claim by (auto simp: lock_inv_def dels_ok_def)
  with v h assms(6) show ?thesis by (auto simp: rq_full_def lease_live_def)
qed

end
