(* ===== verification/Trace.thy ===== *)
theory Trace
  imports System
begin

text \<open>
  An executable scheduler for the system of \<open>System\<close>: an event names which step
  happens (which request, which pending \<open>DEL\<close>, which new clock), \<open>sys_exec\<close>
  performs it when its guard holds, and \<open>run\<close> performs a list of events. The
  scheduler is equivalent to the step relation (\<open>sys_exec_sound\<close>,
  \<open>sys_exec_complete\<close>), so concrete executions of the protocol, computed by the
  simplifier, are reachable states. The scheduler also runs on symbolic states: a
  timely release followed by the waiting contender's attempt is computed for every
  state in which it is enabled.
\<close>

datatype event =
    EvLock nat "string option"   \<comment> \<open>instance number, key\<close>
  | EvTick millis
  | EvExec nat
  | EvFail nat redis_error
  | EvCallback nat
  | EvRelease nat
  | EvDelExec nat                \<comment> \<open>position in \<open>sys_dels\<close>\<close>
  | EvDelFail nat redis_error

definition quiescent_exec :: "sys \<Rightarrow> bool" where
  "quiescent_exec s \<longleftrightarrow> list_all (\<lambda>r. \<not> in_flight (rq_phase r)) (sys_reqs s) \<and> sys_dels s = []"

lemma quiescent_exec_iff: "quiescent_exec s = quiescent s"
  by (simp add: quiescent_exec_def quiescent_def list_all_iff)

fun sys_exec :: "env \<Rightarrow> sys \<Rightarrow> event \<Rightarrow> sys option" where
  "sys_exec e s (EvLock p k) =
     (if p < length (env_procs e)
      then Some (s\<lparr>sys_reqs := sys_reqs s @ [lock (sys_clock s) (env_procs e ! p) k]\<rparr>) else None)"
| "sys_exec e s (EvTick ms) =
     (if sys_clock s < ms \<and> (env_zero_latency e \<longrightarrow> quiescent_exec s)
      then Some (s\<lparr>sys_clock := ms\<rparr>) else None)"
| "sys_exec e s (EvExec i) =
     (if i < length (sys_reqs s) then
        (case redis_exec (sys_reqs s ! i) (sys_store s) of
           Some (r, st) \<Rightarrow> Some (s\<lparr>sys_reqs := (sys_reqs s)[i := r], sys_store := st\<rparr>)
         | None \<Rightarrow> None)
      else None)"
| "sys_exec e s (EvFail i err) =
     (if i < length (sys_reqs s) then
        map_option (\<lambda>r. s\<lparr>sys_reqs := (sys_reqs s)[i := r]\<rparr>) (redis_fail err (sys_reqs s ! i))
      else None)"
| "sys_exec e s (EvCallback i) =
     (if i < length (sys_reqs s) then
        map_option (\<lambda>r. s\<lparr>sys_reqs := (sys_reqs s)[i := r]\<rparr>) (callback (sys_clock s) (sys_reqs s ! i))
      else None)"
| "sys_exec e s (EvRelease i) =
     (if i < length (sys_reqs s) then
        (case rq_phase (sys_reqs s ! i) of
           Done (Inr h) \<Rightarrow> Some (do_release i h s)
         | Released h \<Rightarrow> (if env_single_release e then None else Some (do_release i h s))
         | _ \<Rightarrow> None)
      else None)"
| "sys_exec e s (EvDelExec n) =
     (if n < length (sys_dels s)
      then Some (s\<lparr>sys_store := snd (redis_del (sys_dels s ! n) (sys_store s)),
                   sys_dels := remove1 (sys_dels s ! n) (sys_dels s), sys_log := handle_del None (sys_log s)\<rparr>)
      else None)"
| "sys_exec e s (EvDelFail n err) =
     (if n < length (sys_dels s)
      then Some (s\<lparr>sys_dels := remove1 (sys_dels s ! n) (sys_dels s),
                   sys_log := handle_del (Some err) (sys_log s)\<rparr>)
      else None)"

fun run :: "env \<Rightarrow> sys \<Rightarrow> event list \<Rightarrow> sys option" where
  "run e s [] = Some s"
| "run e s (ev # evs) = (case sys_exec e s ev of None \<Rightarrow> None | Some s' \<Rightarrow> run e s' evs)"

subsection \<open>The scheduler is the step relation\<close>

lemma sys_exec_sound: "sys_exec e s ev = Some s' \<Longrightarrow> sys_step e s s'"
proof (cases ev)
  case (EvLock p k)
  then show "sys_exec e s ev = Some s' \<Longrightarrow> sys_step e s s'"
    by (auto split: if_splits intro: sys_step.call_lock)
next
  case (EvTick ms)
  then show "sys_exec e s ev = Some s' \<Longrightarrow> sys_step e s s'"
    by (auto simp: quiescent_exec_iff split: if_splits intro: sys_step.tick)
next
  case (EvExec i)
  then show "sys_exec e s ev = Some s' \<Longrightarrow> sys_step e s s'"
    by (auto split: if_splits option.splits intro: sys_step.exec)
next
  case (EvFail i err)
  then show "sys_exec e s ev = Some s' \<Longrightarrow> sys_step e s s'"
    by (auto split: if_splits intro: sys_step.fail)
next
  case (EvCallback i)
  then show "sys_exec e s ev = Some s' \<Longrightarrow> sys_step e s s'"
    by (auto split: if_splits intro: sys_step.run_callback)
next
  case (EvRelease i)
  then show "sys_exec e s ev = Some s' \<Longrightarrow> sys_step e s s'"
    by (auto split: if_splits phase.splits sum.splits
             intro: sys_step.call_release sys_step.call_release_again)
next
  case (EvDelExec n)
  then show "sys_exec e s ev = Some s' \<Longrightarrow> sys_step e s s'"
    by (auto split: if_splits intro: sys_step_del_exec)
next
  case (EvDelFail n err)
  then show "sys_exec e s ev = Some s' \<Longrightarrow> sys_step e s s'"
    by (auto split: if_splits intro: sys_step.del_fail)
qed

lemma sys_exec_complete: "sys_step e s s' \<Longrightarrow> \<exists>ev. sys_exec e s ev = Some s'"
proof (induction rule: sys_step.induct)
  case (call_lock ls s k)
  then obtain p where "p < length (env_procs e)" "env_procs e ! p = ls" by (auto simp: in_set_conv_nth)
  then have "sys_exec e s (EvLock p k) = Some (s\<lparr>sys_reqs := sys_reqs s @ [lock (sys_clock s) ls k]\<rparr>)"
    by simp
  then show ?case ..
next
  case (tick s ms)
  then have "sys_exec e s (EvTick ms) = Some (s\<lparr>sys_clock := ms\<rparr>)" by (simp add: quiescent_exec_iff)
  then show ?case ..
next
  case (exec i s r st)
  then have "sys_exec e s (EvExec i) = Some (s\<lparr>sys_reqs := (sys_reqs s)[i := r], sys_store := st\<rparr>)"
    by simp
  then show ?case ..
next
  case (fail i s err r)
  then have "sys_exec e s (EvFail i err) = Some (s\<lparr>sys_reqs := (sys_reqs s)[i := r]\<rparr>)" by simp
  then show ?case ..
next
  case (run_callback i s r)
  then have "sys_exec e s (EvCallback i) = Some (s\<lparr>sys_reqs := (sys_reqs s)[i := r]\<rparr>)" by simp
  then show ?case ..
next
  case (call_release i s h)
  then have "sys_exec e s (EvRelease i) = Some (do_release i h s)" by simp
  then show ?case ..
next
  case (call_release_again i s h)
  then have "sys_exec e s (EvRelease i) = Some (do_release i h s)" by simp
  then show ?case ..
next
  case (del_exec k s)
  then obtain n where n: "n < length (sys_dels s)" "sys_dels s ! n = k" by (auto simp: in_set_conv_nth)
  then have "sys_exec e s (EvDelExec n) = Some (s\<lparr>sys_store := snd (redis_del k (sys_store s)),
      sys_dels := remove1 k (sys_dels s), sys_log := handle_del None (sys_log s)\<rparr>)" by simp
  then show ?case ..
next
  case (del_fail k s err)
  then obtain n where n: "n < length (sys_dels s)" "sys_dels s ! n = k" by (auto simp: in_set_conv_nth)
  then have "sys_exec e s (EvDelFail n err) = Some (s\<lparr>sys_dels := remove1 k (sys_dels s),
      sys_log := handle_del (Some err) (sys_log s)\<rparr>)" by simp
  then show ?case ..
qed

lemma run_reachable: "reachable e s \<Longrightarrow> run e s evs = Some s' \<Longrightarrow> reachable e s'"
proof (induction evs arbitrary: s)
  case Nil
  then show ?case by simp
next
  case (Cons ev evs)
  then obtain s1 where s1: "sys_exec e s ev = Some s1" "run e s1 evs = Some s'"
    by (auto split: option.splits)
  with Cons.prems(1) have "reachable e s1" by (blast intro: reachable.step sys_exec_sound)
  then show ?case using s1(2) by (rule Cons.IH)
qed

lemma run_steps: "run e s evs = Some s' \<Longrightarrow> (sys_step e)\<^sup>*\<^sup>* s s'"
proof (induction evs arbitrary: s)
  case (Cons ev evs)
  then obtain s1 where "sys_exec e s ev = Some s1" "run e s1 evs = Some s'"
    by (auto split: option.splits)
  with Cons.IH show ?case by (blast intro: converse_rtranclp_into_rtranclp sys_exec_sound)
qed simp

lemma run_relpowp: "run e s evs = Some s' \<Longrightarrow> (sys_step e ^^ length evs) s s'"
proof (induction evs arbitrary: s)
  case (Cons ev evs)
  then obtain s1 where "sys_exec e s ev = Some s1" "run e s1 evs = Some s'"
    by (auto split: option.splits)
  then have "sys_step e s s1" "(sys_step e ^^ length evs) s1 s'" by (auto intro: sys_exec_sound Cons.IH)
  then have "(sys_step e ^^ Suc (length evs)) s s'" by (rule relpowp_Suc_I2)
  then show ?case by simp
qed simp

lemma run_init_reachable: "run e (init_sys st ms) evs = Some s' \<Longrightarrow> reachable e s'"
  by (rule run_reachable [OF reachable.init])

subsection \<open>A timely release lets a waiting contender in\<close>

text \<open>
  C20. From any state in which one request holds a running lease and another request
  waits on the same store key with its retry timer due, five steps (the holder's timely
  release, its \<open>DEL\<close>, the timer's \<open>aquire\<close>, the \<open>SETNX\<close> and its handler) give the
  waiting request the lock, with a lease from the current second: it does not wait out
  the holder's lease, which would still be running.
\<close>

theorem release_wakes_contender:
  assumes "i < length (sys_reqs s)" "j < length (sys_reqs s)"
    and "rq_phase (sys_reqs s ! j) = Done (Inr h)" "lease_live (sys_clock s) (h_expires h)"
    and "rq_phase (sys_reqs s ! i) = Sleeping w" "w \<le> sys_clock s"
    and "rq_full (sys_reqs s ! i) = full_key (rq_ls (sys_reqs s ! j)) (h_key h)"
  shows "\<exists>s'. (sys_step e ^^ 5) s s' \<and> sys_clock s' = sys_clock s \<and>
    rq_phase (sys_reqs s' ! j) = Released h \<and> lease_live (sys_clock s') (h_expires h) \<and>
    rq_phase (sys_reqs s' ! i) = Done (Inr \<lparr>h_key = rq_key (sys_reqs s ! i),
      h_expires = unix (sys_clock s) + ls_timeout (rq_ls (sys_reqs s ! i))\<rparr>) \<and>
    sys_store s' (rq_full (sys_reqs s ! i)) = Some (unix (sys_clock s) + ls_timeout (rq_ls (sys_reqs s ! i)))"
proof -
  have ij: "i \<noteq> j" using assms(3,5) by auto
  let ?evs = "[EvRelease j, EvDelExec (length (sys_dels s)), EvCallback i, EvExec i, EvCallback i]"
  have "\<exists>s'. run e s ?evs = Some s' \<and> sys_clock s' = sys_clock s \<and>
    rq_phase (sys_reqs s' ! j) = Released h \<and>
    rq_phase (sys_reqs s' ! i) = Done (Inr \<lparr>h_key = rq_key (sys_reqs s ! i),
      h_expires = unix (sys_clock s) + ls_timeout (rq_ls (sys_reqs s ! i))\<rparr>) \<and>
    sys_store s' (rq_full (sys_reqs s ! i)) = Some (unix (sys_clock s) + ls_timeout (rq_ls (sys_reqs s ! i)))"
    using assms ij
    by (simp add: do_release_def release_def Let_def callback_def aquire_def redis_exec_def
        redis_setnx_def grant_def redis_del_def rq_full_def nth_append)
  then obtain s' where "run e s ?evs = Some s'" and p: "sys_clock s' = sys_clock s"
    "rq_phase (sys_reqs s' ! j) = Released h"
    "rq_phase (sys_reqs s' ! i) = Done (Inr \<lparr>h_key = rq_key (sys_reqs s ! i),
      h_expires = unix (sys_clock s) + ls_timeout (rq_ls (sys_reqs s ! i))\<rparr>)"
    "sys_store s' (rq_full (sys_reqs s ! i)) = Some (unix (sys_clock s) + ls_timeout (rq_ls (sys_reqs s ! i)))"
    by blast
  moreover have "(sys_step e ^^ 5) s s'"
  proof -
    have l: "length ?evs = 5" by simp
    show ?thesis by (subst l [symmetric]) (rule run_relpowp [OF calculation(1)])
  qed
  ultimately show ?thesis using assms(4) by auto
qed

end
