(* ===== verification/Typing.thy ===== *)
theory Typing
  imports System
begin

text \<open>
  The typing of a deployment: every request belongs to one of the deployment's
  instances, and every pending \<open>DEL\<close> is for a key under the prefix of one of them.
  Every step keeps it and changes the store only at such keys, so a deployment of
  locksmith leaves every other key of the Redis store as it found it.
\<close>

definition owned_key :: "env \<Rightarrow> store_key \<Rightarrow> bool" where
  "owned_key e k \<longleftrightarrow> (\<exists>ls \<in> set (env_procs e). take (length (ls_prefix ls)) k = ls_prefix ls)"

definition sys_typed :: "env \<Rightarrow> sys \<Rightarrow> bool" where
  "sys_typed e s \<longleftrightarrow>
     (\<forall>r \<in> set (sys_reqs s). rq_ls r \<in> set (env_procs e)) \<and> (\<forall>k \<in> set (sys_dels s). owned_key e k)"

lemma rq_full_lock [simp]: "rq_full (lock ms ls k) = full_key ls (lock_key k)"
  by (simp add: lock_def aquire_def rq_full_def)

lemma rq_ls_lock [simp]: "rq_ls (lock ms ls k) = ls"
  by (simp add: lock_def aquire_def)

lemma owned_full_key [intro]: "ls \<in> set (env_procs e) \<Longrightarrow> owned_key e (full_key ls key)"
  unfolding owned_key_def full_key_def by (rule bexI [of _ ls]) simp_all

lemma owned_rq_full: "rq_ls r \<in> set (env_procs e) \<Longrightarrow> owned_key e (rq_full r)"
  unfolding rq_full_def by (rule owned_full_key)

lemma redis_exec_frame:
  assumes "redis_exec r st = Some (r', st')"
  shows "rq_ls r' = rq_ls r \<and> (\<forall>k. st' k \<noteq> st k \<longrightarrow> k = rq_full r)"
  using assms by (cases rule: redis_exec_cases) auto

lemma sys_typed_update:
  "sys_typed e s \<Longrightarrow> i < length (sys_reqs s) \<Longrightarrow> rq_ls r = rq_ls (sys_reqs s ! i) \<Longrightarrow>
     sys_typed e (s\<lparr>sys_reqs := (sys_reqs s)[i := r], sys_store := st\<rparr>) \<and>
     sys_typed e (s\<lparr>sys_reqs := (sys_reqs s)[i := r]\<rparr>)"
  unfolding sys_typed_def by (auto dest!: in_set_list_updateD)

lemma sys_typed_nth: "sys_typed e s \<Longrightarrow> i < length (sys_reqs s) \<Longrightarrow> rq_ls (sys_reqs s ! i) \<in> set (env_procs e)"
  unfolding sys_typed_def by auto

lemma sys_step_typed:
  assumes "sys_step e s s'" "sys_typed e s"
  shows "sys_typed e s' \<and> (\<forall>k. sys_store s' k \<noteq> sys_store s k \<longrightarrow> owned_key e k)"
  using assms
proof (induction rule: sys_step.induct)
  case (call_lock ls s k)
  then show ?case by (auto simp: sys_typed_def)
next
  case (tick s ms)
  then show ?case by (simp add: sys_typed_def)
next
  case (exec i s r st)
  then have "rq_ls r = rq_ls (sys_reqs s ! i)" "\<forall>k. st k \<noteq> sys_store s k \<longrightarrow> k = rq_full (sys_reqs s ! i)"
    by (auto dest: redis_exec_frame)
  with exec show ?case by (auto simp: sys_typed_update intro: owned_rq_full sys_typed_nth)
next
  case (fail i s err r)
  then show ?case by (simp add: sys_typed_update redis_fail_frame)
next
  case (run_callback i s r)
  then show ?case by (simp add: sys_typed_update callback_frame)
next
  case (call_release i s h)
  then have "rq_ls (sys_reqs s ! i) \<in> set (env_procs e)" by (blast intro: sys_typed_nth)
  with call_release show ?case
    by (auto simp: sys_typed_def do_release_dels release_def Let_def dest!: in_set_list_updateD)
next
  case (call_release_again i s h)
  then have "rq_ls (sys_reqs s ! i) \<in> set (env_procs e)" by (blast intro: sys_typed_nth)
  with call_release_again show ?case
    by (auto simp: sys_typed_def do_release_dels release_def Let_def dest!: in_set_list_updateD)
next
  case (del_exec k s)
  then show ?case
    by (auto simp: sys_typed_def redis_del_def dest: set_remove1_subset [THEN subsetD] split: if_splits)
next
  case (del_fail k s err)
  then show ?case by (auto simp: sys_typed_def dest: set_remove1_subset [THEN subsetD])
qed

text \<open>
  C25. Every state a deployment reaches from a store \<open>st\<close> is typed: its requests
  belong to the deployment's instances and its pending \<open>DEL\<close>s are keys under their
  prefixes; and the store differs from \<open>st\<close> only at keys under those prefixes.
\<close>

theorem deployment_typed:
  "(sys_step e)\<^sup>*\<^sup>* (init_sys st ms) s \<Longrightarrow>
     sys_typed e s \<and> (\<forall>k. sys_store s k \<noteq> st k \<longrightarrow> owned_key e k)"
proof (induction rule: rtranclp_induct)
  case base
  then show ?case by (simp add: init_sys_def sys_typed_def)
next
  case (step s s')
  then show ?case by (metis sys_step_typed)
qed

end
