(* ===== verification/Scenarios.thy ===== *)
theory Scenarios
  imports Safety Trace Typing
begin

text \<open>
  Concrete executions of the protocol, computed by the simplifier through the scheduler
  of \<open>Trace\<close>: the usage of \<open>src/test/index.js\<close> (an instance with a 2-second lease,
  three requests on \<open>asdf\<close>, one on \<open>notblocked\<close>), the two ways the source
  lets two callers hold the same lock at once, and the concrete states at which the
  general theorems' hypotheses hold.
\<close>

definition ls_test :: locksmith where
  "ls_test = Locksmith (Some (no_options\<lparr>opt_timeout := Some 2\<rparr>))"

lemma ls_test_fields [simp]:
  "ls_prefix ls_test = ''__locksmith:''" "ls_timeout ls_test = 2" "ls_retries ls_test = 100"
  by (simp_all add: ls_test_def Locksmith_def delete_consumed_def no_options_def)

text \<open>An instance that gives up after one retry, with a 10-second lease.\<close>

definition ls_one_retry :: locksmith where
  "ls_one_retry = Locksmith (Some (no_options\<lparr>opt_timeout := Some 10, opt_retries := Some 1\<rparr>))"

lemma ls_one_retry_fields [simp]:
  "ls_prefix ls_one_retry = ''__locksmith:''" "ls_timeout ls_one_retry = 10"
  "ls_retries ls_one_retry = 1"
  by (simp_all add: ls_one_retry_def Locksmith_def delete_consumed_def no_options_def)

definition env_ideal :: "locksmith \<Rightarrow> env" where
  "env_ideal ls = \<lparr>env_procs = [ls], env_zero_latency = True, env_single_release = True\<rparr>"

definition env_async :: "locksmith \<Rightarrow> env" where
  "env_async ls = \<lparr>env_procs = [ls], env_zero_latency = False, env_single_release = True\<rparr>"

definition env_reuse :: "locksmith \<Rightarrow> env" where
  "env_reuse ls = \<lparr>env_procs = [ls], env_zero_latency = True, env_single_release = False\<rparr>"

lemma env_fields [simp]:
  "env_procs (env_ideal ls) = [ls]" "env_zero_latency (env_ideal ls)" "env_single_release (env_ideal ls)"
  "env_procs (env_async ls) = [ls]" "\<not> env_zero_latency (env_async ls)" "env_single_release (env_async ls)"
  "env_procs (env_reuse ls) = [ls]" "env_zero_latency (env_reuse ls)" "\<not> env_single_release (env_reuse ls)"
  by (simp_all add: env_ideal_def env_async_def env_reuse_def)

lemma ideal_env_test: "ideal_env (env_ideal ls)"
  by (simp add: ideal_env_def)

lemma uniform_timeout_test: "uniform_timeout (env_ideal ls_test) 2"
  by (simp add: uniform_timeout_def)

lemmas scenario_simps = lock_model_defs lock_key_def holds_def

subsection \<open>One request takes a free key\<close>

definition one_holder :: "event list" where
  "one_holder = [EvLock 0 (Some ''asdf''), EvExec 0, EvCallback 0]"

lemma one_holder_run:
  "\<exists>s. run (env_ideal ls_test) (init_sys Map.empty 0) one_holder = Some s \<and>
     0 < length (sys_reqs s) \<and> holds (sys_clock s) (sys_reqs s ! 0) \<and>
     rq_phase (sys_reqs s ! 0) = Done (Inr \<lparr>h_key = ''asdf'', h_expires = 2\<rparr>)"
  by (simp add: one_holder_def scenario_simps)

theorem mutual_exclusion_witness:
  "\<exists>s. reachable (env_ideal ls_test) s \<and> ideal_env (env_ideal ls_test) \<and>
     uniform_timeout (env_ideal ls_test) 2 \<and> 0 < length (sys_reqs s) \<and>
     holds (sys_clock s) (sys_reqs s ! 0) \<and> rq_full (sys_reqs s ! 0) = rq_full (sys_reqs s ! 0) \<and>
     (0::nat) = 0"
proof -
  obtain s where r: "run (env_ideal ls_test) (init_sys Map.empty 0) one_holder = Some s"
    and l: "0 < length (sys_reqs s)" and h: "holds (sys_clock s) (sys_reqs s ! 0)"
    using one_holder_run by blast
  have re: "reachable (env_ideal ls_test) s" using r by (rule run_init_reachable)
  have "(0::nat) = 0"
    by (rule mutual_exclusion [OF re ideal_env_test uniform_timeout_test l l h h refl])
  with re l h show ?thesis using ideal_env_test uniform_timeout_test by blast
qed

subsection \<open>Two holders: a \<open>DEL\<close> that lands after the lease expired\<close>

text \<open>
  Request 0 takes \<open>asdf\<close> at 0 ms with a lease to second 2 and releases at 1500 ms,
  inside its lease, so \<open>_release\<close> sends \<open>DEL\<close>. Before Redis executes it the clock
  reaches 2000 ms; request 1 finds the lease expired and takes it over with
  \<open>GETSET\<close> (lease to second 4). Then the \<open>DEL\<close> lands and deletes request 1's
  lease, and request 2 takes the free key with \<open>SETNX\<close>.
\<close>

definition late_del_events :: "event list" where
  "late_del_events =
     [EvLock 0 (Some ''asdf''), EvExec 0, EvCallback 0, EvTick 1500, EvRelease 0, EvTick 2000,
      EvLock 0 (Some ''asdf''), EvExec 1, EvCallback 1, EvExec 1, EvCallback 1, EvExec 1, EvCallback 1,
      EvDelExec 0, EvLock 0 (Some ''asdf''), EvExec 2, EvCallback 2]"

text \<open>
  C2. Without the zero-latency discipline, mutual exclusion fails: a deployment of the
  test's instance reaches a state in which two different requests hold unexpired locks
  on the same key.
\<close>

theorem late_del_two_holders:
  "\<exists>s. reachable (env_async ls_test) s \<and> 2 < length (sys_reqs s) \<and>
     holds (sys_clock s) (sys_reqs s ! 1) \<and> holds (sys_clock s) (sys_reqs s ! 2) \<and>
     rq_full (sys_reqs s ! 1) = rq_full (sys_reqs s ! 2)"
proof -
  have "\<exists>s. run (env_async ls_test) (init_sys Map.empty 0) late_del_events = Some s \<and>
     2 < length (sys_reqs s) \<and> holds (sys_clock s) (sys_reqs s ! 1) \<and>
     holds (sys_clock s) (sys_reqs s ! 2) \<and> rq_full (sys_reqs s ! 1) = rq_full (sys_reqs s ! 2)"
    by (simp add: late_del_events_def scenario_simps)
  then show ?thesis using run_init_reachable by blast
qed

subsection \<open>Two holders: a release function called twice\<close>

text \<open>
  Request 0 takes \<open>asdf\<close> and releases it; request 1 takes the free key; request 0's
  caller calls its release function again while its own lease still runs, which deletes
  request 1's lease; request 2 takes the key.
\<close>

definition double_release_events :: "event list" where
  "double_release_events =
     [EvLock 0 (Some ''asdf''), EvExec 0, EvCallback 0, EvRelease 0, EvDelExec 0,
      EvLock 0 (Some ''asdf''), EvExec 1, EvCallback 1, EvRelease 0, EvDelExec 0,
      EvLock 0 (Some ''asdf''), EvExec 2, EvCallback 2]"

text \<open>
  C16. The release function is not single-use: a caller that calls it twice, even
  without any latency, lets two other requests hold the same key at once.
\<close>

theorem double_release_two_holders:
  "\<exists>s. reachable (env_reuse ls_test) s \<and> 2 < length (sys_reqs s) \<and>
     holds (sys_clock s) (sys_reqs s ! 1) \<and> holds (sys_clock s) (sys_reqs s ! 2) \<and>
     rq_full (sys_reqs s ! 1) = rq_full (sys_reqs s ! 2)"
proof -
  have "\<exists>s. run (env_reuse ls_test) (init_sys Map.empty 0) double_release_events = Some s \<and>
     2 < length (sys_reqs s) \<and> holds (sys_clock s) (sys_reqs s ! 1) \<and>
     holds (sys_clock s) (sys_reqs s ! 2) \<and> rq_full (sys_reqs s ! 1) = rq_full (sys_reqs s ! 2)"
    by (simp add: double_release_events_def scenario_simps)
  then show ?thesis using run_init_reachable by blast
qed

subsection \<open>The usage of the test file\<close>



subsection \<open>Witnesses of the general theorems\<close>

definition held_state :: "millis \<Rightarrow> sys" where
  "held_state ms = (init_sys [''__locksmith:asdf'' \<mapsto> 2] ms)\<lparr>sys_reqs :=
     [(lock 0 ls_test (Some ''asdf''))\<lparr>rq_phase := Done (Inr \<lparr>h_key = ''asdf'', h_expires = 2\<rparr>)\<rparr>]\<rparr>"

theorem late_release_keeps_store_witness:
  "\<not> lease_live (sys_clock (held_state 5000)) (h_expires \<lparr>h_key = ''asdf'', h_expires = 2\<rparr>) \<and>
   sys_store (do_release 0 \<lparr>h_key = ''asdf'', h_expires = 2\<rparr> (held_state 5000)) = [''__locksmith:asdf'' \<mapsto> 2] \<and>
   sys_log (do_release 0 \<lparr>h_key = ''asdf'', h_expires = 2\<rparr> (held_state 5000)) = [late_release_msg ''asdf'']"
proof -
  have h: "\<not> lease_live (sys_clock (held_state 5000)) (h_expires \<lparr>h_key = ''asdf'', h_expires = 2\<rparr>)"
    by (simp add: held_state_def init_sys_def lease_live_def unix_def)
  show ?thesis using late_release_keeps_store [OF h] h by (simp add: held_state_def init_sys_def)
qed

theorem timely_release_deletes_witness:
  "lease_live (sys_clock (held_state 1000)) (h_expires \<lparr>h_key = ''asdf'', h_expires = 2\<rparr>) \<and>
   sys_dels (do_release 0 \<lparr>h_key = ''asdf'', h_expires = 2\<rparr> (held_state 1000)) = [''__locksmith:asdf'']"
proof -
  have h: "lease_live (sys_clock (held_state 1000)) (h_expires \<lparr>h_key = ''asdf'', h_expires = 2\<rparr>)"
    by (simp add: held_state_def init_sys_def lease_live_def unix_def)
  show ?thesis using timely_release_deletes [OF h] h
    by (simp add: held_state_def init_sys_def lock_def aquire_def full_key_def)
qed

definition give_up_events :: "event list" where
  "give_up_events =
     [EvLock 0 (Some ''x''), EvExec 0, EvCallback 0, EvLock 0 (Some ''x''),
      EvExec 1, EvCallback 1, EvExec 1, EvCallback 1, EvTick 1000,
      EvCallback 1, EvExec 1, EvCallback 1, EvExec 1, EvCallback 1, EvTick 2000,
      EvCallback 1, EvExec 1, EvCallback 1, EvExec 1, EvCallback 1]"

theorem max_retries_exact_witness:
  "\<exists>s. reachable (env_ideal ls_one_retry) s \<and> sys_reqs s ! 1 \<in> set (sys_reqs s) \<and>
     rq_phase (sys_reqs s ! 1) = Done (Inl (MaxRetriesHit (max_retries_msg ''x''))) \<and>
     int (rq_retries (sys_reqs s ! 1)) = 3"
proof -
  have "\<exists>s. run (env_ideal ls_one_retry) (init_sys Map.empty 0) give_up_events = Some s \<and>
     1 < length (sys_reqs s) \<and> rq_ls (sys_reqs s ! 1) = ls_one_retry \<and>
     rq_phase (sys_reqs s ! 1) = Done (Inl (MaxRetriesHit (max_retries_msg ''x'')))"
    by (simp add: give_up_events_def scenario_simps quiescent_exec_def)
  then obtain s where r: "run (env_ideal ls_one_retry) (init_sys Map.empty 0) give_up_events = Some s"
    and l: "1 < length (sys_reqs s)" and ls: "rq_ls (sys_reqs s ! 1) = ls_one_retry"
    and p: "rq_phase (sys_reqs s ! 1) = Done (Inl (MaxRetriesHit (max_retries_msg ''x'')))" by blast
  have re: "reachable (env_ideal ls_one_retry) s" using r by (rule run_init_reachable)
  have m: "sys_reqs s ! 1 \<in> set (sys_reqs s)" using l by simp
  have "int (rq_retries (sys_reqs s ! 1)) = max 1 (ls_retries (rq_ls (sys_reqs s ! 1)) + 2)"
    by (rule max_retries_exact [OF re m p])
  moreover have "ls_retries (rq_ls (sys_reqs s ! 1)) = 1" using ls by simp
  ultimately have "int (rq_retries (sys_reqs s ! 1)) = 3" by simp
  with re m p show ?thesis by blast
qed

theorem running_retries_bound_witness:
  "\<exists>s. reachable (env_ideal ls_test) s \<and> sys_reqs s ! 0 \<in> set (sys_reqs s) \<and>
     \<not> finished (rq_phase (sys_reqs s ! 0)) \<and>
     int (rq_retries (sys_reqs s ! 0)) \<le> max 0 (ls_retries (rq_ls (sys_reqs s ! 0)) + 1)"
proof -
  have "\<exists>s. run (env_ideal ls_test) (init_sys Map.empty 0) [EvLock 0 (Some ''asdf'')] = Some s \<and>
     0 < length (sys_reqs s) \<and> \<not> finished (rq_phase (sys_reqs s ! 0))"
    by (simp add: scenario_simps)
  then obtain s where r: "run (env_ideal ls_test) (init_sys Map.empty 0) [EvLock 0 (Some ''asdf'')] = Some s"
    and l: "0 < length (sys_reqs s)" and p: "\<not> finished (rq_phase (sys_reqs s ! 0))" by blast
  have re: "reachable (env_ideal ls_test) s" using r by (rule run_init_reachable)
  have m: "sys_reqs s ! 0 \<in> set (sys_reqs s)" using l by simp
  show ?thesis using running_retries_bound [OF re m p] re m p by blast
qed

theorem deployment_typed_witness:
  "\<exists>s. (sys_step (env_ideal ls_test))\<^sup>*\<^sup>* (init_sys Map.empty 0) s \<and> sys_typed (env_ideal ls_test) s \<and>
     sys_store s ''__locksmith:asdf'' = Some 2 \<and> owned_key (env_ideal ls_test) ''__locksmith:asdf''"
proof -
  have "\<exists>s. run (env_ideal ls_test) (init_sys Map.empty 0) one_holder = Some s \<and>
      sys_store s ''__locksmith:asdf'' = Some 2"
    by (simp add: one_holder_def scenario_simps)
  then obtain s where r: "run (env_ideal ls_test) (init_sys Map.empty 0) one_holder = Some s"
    and st: "sys_store s ''__locksmith:asdf'' = Some 2" by blast
  have steps: "(sys_step (env_ideal ls_test))\<^sup>*\<^sup>* (init_sys Map.empty 0) s" using r by (rule run_steps)
  from deployment_typed [OF steps] st have "sys_typed (env_ideal ls_test) s \<and>
      owned_key (env_ideal ls_test) ''__locksmith:asdf''" by auto
  with steps st show ?thesis by blast
qed

theorem granted_lease_stored_witness:
  "\<exists>s. reachable (env_ideal ls_test) s \<and> ideal_env (env_ideal ls_test) \<and>
     uniform_timeout (env_ideal ls_test) 2 \<and> sys_reqs s ! 0 \<in> set (sys_reqs s) \<and>
     rq_phase (sys_reqs s ! 0) = Done (Inr \<lparr>h_key = ''asdf'', h_expires = 2\<rparr>) \<and>
     lease_live (sys_clock s) 2 \<and>
     (\<exists>v. sys_store s (full_key (rq_ls (sys_reqs s ! 0)) ''asdf'') = Some v \<and> 2 \<le> v \<and>
        full_key (rq_ls (sys_reqs s ! 0)) ''asdf'' \<notin> set (sys_dels s))"
proof -
  obtain s where r: "run (env_ideal ls_test) (init_sys Map.empty 0) one_holder = Some s"
    and l: "0 < length (sys_reqs s)"
    and p: "rq_phase (sys_reqs s ! 0) = Done (Inr \<lparr>h_key = ''asdf'', h_expires = 2\<rparr>)"
    and hl: "holds (sys_clock s) (sys_reqs s ! 0)"
    using one_holder_run by blast
  have re: "reachable (env_ideal ls_test) s" using r by (rule run_init_reachable)
  have m: "sys_reqs s ! 0 \<in> set (sys_reqs s)" using l by simp
  have live: "lease_live (sys_clock s) (h_expires \<lparr>h_key = ''asdf'', h_expires = 2\<rparr>)"
    using hl p by (simp add: holds_def)
  from granted_lease_stored [OF re ideal_env_test uniform_timeout_test m p live]
  have "\<exists>v. sys_store s (full_key (rq_ls (sys_reqs s ! 0)) ''asdf'') = Some v \<and> 2 \<le> v \<and>
      full_key (rq_ls (sys_reqs s ! 0)) ''asdf'' \<notin> set (sys_dels s)" by auto
  with re m p live show ?thesis using ideal_env_test uniform_timeout_test by auto
qed

theorem release_wakes_contender_witness:
  "\<exists>s. reachable (env_ideal ls_test) s \<and> 1 < length (sys_reqs s) \<and>
     rq_phase (sys_reqs s ! 0) = Done (Inr \<lparr>h_key = ''asdf'', h_expires = 2\<rparr>) \<and>
     lease_live (sys_clock s) 2 \<and> rq_phase (sys_reqs s ! 1) = Sleeping 1000 \<and>
     (\<exists>s'. (sys_step (env_ideal ls_test) ^^ 5) s s' \<and>
        rq_phase (sys_reqs s' ! 1) = Done (Inr \<lparr>h_key = ''asdf'', h_expires = 3\<rparr>))"
proof -
  have "\<exists>s. run (env_ideal ls_test) (init_sys Map.empty 0)
      [EvLock 0 (Some ''asdf''), EvExec 0, EvCallback 0, EvLock 0 (Some ''asdf''),
       EvExec 1, EvCallback 1, EvExec 1, EvCallback 1, EvTick 1000] = Some s \<and>
      1 < length (sys_reqs s) \<and> sys_clock s = 1000 \<and>
      rq_phase (sys_reqs s ! 0) = Done (Inr \<lparr>h_key = ''asdf'', h_expires = 2\<rparr>) \<and>
      rq_phase (sys_reqs s ! 1) = Sleeping 1000 \<and>
      rq_full (sys_reqs s ! 1) = full_key (rq_ls (sys_reqs s ! 0)) ''asdf'' \<and>
      rq_key (sys_reqs s ! 1) = ''asdf'' \<and> rq_ls (sys_reqs s ! 1) = ls_test"
    by (simp add: scenario_simps quiescent_exec_def)
  then obtain s where r: "run (env_ideal ls_test) (init_sys Map.empty 0)
      [EvLock 0 (Some ''asdf''), EvExec 0, EvCallback 0, EvLock 0 (Some ''asdf''),
       EvExec 1, EvCallback 1, EvExec 1, EvCallback 1, EvTick 1000] = Some s"
    and l: "1 < length (sys_reqs s)" and c: "sys_clock s = 1000"
    and p0: "rq_phase (sys_reqs s ! 0) = Done (Inr \<lparr>h_key = ''asdf'', h_expires = 2\<rparr>)"
    and p1: "rq_phase (sys_reqs s ! 1) = Sleeping 1000"
    and k: "rq_full (sys_reqs s ! 1) = full_key (rq_ls (sys_reqs s ! 0)) ''asdf''"
    and kk: "rq_key (sys_reqs s ! 1) = ''asdf''" and ls: "rq_ls (sys_reqs s ! 1) = ls_test" by blast
  have re: "reachable (env_ideal ls_test) s" using r by (rule run_init_reachable)
  have live: "lease_live (sys_clock s) (h_expires \<lparr>h_key = ''asdf'', h_expires = 2\<rparr>)"
    using c by (simp add: lease_live_def unix_def)
  have w: "1000 \<le> sys_clock s" using c by simp
  have k': "rq_full (sys_reqs s ! 1) =
      full_key (rq_ls (sys_reqs s ! 0)) (h_key \<lparr>h_key = ''asdf'', h_expires = 2\<rparr>)" using k by simp
  have l0: "0 < length (sys_reqs s)" using l by linarith
  from release_wakes_contender [where e = "env_ideal ls_test" and i = 1 and j = 0, OF l l0 p0 live p1 w k']
  obtain s' where "(sys_step (env_ideal ls_test) ^^ 5) s s'"
    "rq_phase (sys_reqs s' ! 1) = Done (Inr \<lparr>h_key = rq_key (sys_reqs s ! 1),
      h_expires = unix (sys_clock s) + ls_timeout (rq_ls (sys_reqs s ! 1))\<rparr>)"
    by auto
  with re l p0 p1 live c kk ls show ?thesis by (auto simp: unix_def)
qed

end
