(* ===== verification/Termination.thy ===== *)
theory Termination
  imports System
begin

text \<open>
  Termination of one request. The own steps of a request are the steps of
  \<open>System.sys_step\<close> that change only it: Redis executing or failing its command, the
  event loop running its due callback or timer, and the caller releasing its lock once.
  The measure \<open>req_measure\<close> counts the retries the budget still allows, weighted by
  the length of one attempt, plus the position of the phase inside the current attempt;
  every own step of a well-formed request decreases it, and own steps keep requests
  well formed. So a call of \<open>lock\<close> makes at most
  \<open>12 * max 0 (retries + 1) + 22\<close> own steps, whatever the store replies and whatever
  the other requests do.
\<close>

text \<open>Position of a phase inside one attempt, counting down to the callback.\<close>

fun phase_rank :: "phase \<Rightarrow> nat" where
  "phase_rank (Sleeping _) = 11"
| "phase_rank SetnxSent = 10"
| "phase_rank (SetnxReplied (Inr _)) = 9"
| "phase_rank (SetnxReplied (Inl _)) = 8"
| "phase_rank GetSent = 7"
| "phase_rank (GetReplied (Inr _)) = 6"
| "phase_rank (GetReplied (Inl _)) = 5"
| "phase_rank GetSetSent = 4"
| "phase_rank (GetSetReplied (Inr _)) = 3"
| "phase_rank (GetSetReplied (Inl _)) = 2"
| "phase_rank (Done _) = 1"
| "phase_rank (Released _) = 0"

definition retry_budget_left :: "req \<Rightarrow> nat" where
  "retry_budget_left r = nat (max 0 (ls_retries (rq_ls r) + 1)) + 1 - rq_retries r"

definition req_measure :: "req \<Rightarrow> nat" where
  "req_measure r = 12 * retry_budget_left r + phase_rank (rq_phase r)"

definition own_step :: "req \<Rightarrow> req \<Rightarrow> bool" where
  "own_step r r' \<longleftrightarrow>
     (\<exists>st st'. redis_exec r st = Some (r', st')) \<or> (\<exists>e. redis_fail e r = Some r') \<or>
     (\<exists>ms. callback ms r = Some r') \<or>
     (\<exists>h. rq_phase r = Done (Inr h) \<and> r' = r\<lparr>rq_phase := Released h\<rparr>)"

subsection \<open>Each own step decreases the measure\<close>

lemma retry_measure:
  assumes "wf_req r" "\<not> finished (rq_phase r)" "phase_rank (rq_phase r) \<ge> 2"
  shows "req_measure (retry ms r) < req_measure r"
proof -
  have "int (rq_retries r) \<le> max 0 (ls_retries (rq_ls r) + 1)" using assms(1,2) by (rule wf_req_running)
  then have "retry_budget_left (retry ms r) + 1 = retry_budget_left r"
    by (simp add: retry_budget_left_def retry_def) linarith
  moreover have "phase_rank (rq_phase (retry ms r)) \<le> 11" by (simp add: retry_def)
  ultimately show ?thesis using assms(3) by (simp add: req_measure_def)
qed

lemmas measure_simps = req_measure_def retry_budget_left_def

lemma own_step_measure:
  assumes "own_step r r'" "wf_req r"
  shows "req_measure r' < req_measure r"
  using assms(1) unfolding own_step_def
proof (elim disjE exE conjE)
  fix st st' assume "redis_exec r st = Some (r', st')"
  then show ?thesis by (cases rule: redis_exec_cases) (simp_all add: measure_simps)
next
  fix e assume "redis_fail e r = Some r'"
  then show ?thesis
    by (cases "rq_phase r") (auto simp: redis_fail_def measure_simps split: sum.splits)
next
  fix ms assume cb: "callback ms r = Some r'"
  show ?thesis
  proof (cases "rq_phase r")
    case (SetnxReplied rep)
    with cb show ?thesis
      by (cases rep) (auto simp: callback_def grant_def measure_simps split: if_splits)
  next
    case (GetReplied rep)
    with cb assms(2) retry_measure [of r ms] show ?thesis
      by (cases rep) (auto simp: callback_def measure_simps split: if_splits)
  next
    case (GetSetReplied rep)
    with cb assms(2) retry_measure [of r ms] show ?thesis
      by (cases rep) (auto simp: callback_def grant_def measure_simps split: if_splits)
  next
    case (Sleeping w)
    with cb show ?thesis
      by (auto simp: callback_def aquire_def measure_simps split: if_splits)
  qed (use cb in \<open>simp_all add: callback_def\<close>)
next
  fix h assume "rq_phase r = Done (Inr h)" "r' = r\<lparr>rq_phase := Released h\<rparr>"
  then show ?thesis by (simp add: measure_simps)
qed

lemma own_step_wf: "own_step r r' \<Longrightarrow> wf_req r \<Longrightarrow> wf_req r'"
  unfolding own_step_def
  by (elim disjE exE conjE) (auto intro: wf_req_redis_exec wf_req_redis_fail wf_req_callback wf_req_release)

lemma own_steps_measure:
  "(own_step ^^ n) r r' \<Longrightarrow> wf_req r \<Longrightarrow> n + req_measure r' \<le> req_measure r"
proof (induction n arbitrary: r)
  case 0
  then show ?case by simp
next
  case (Suc n)
  then obtain r1 where r1: "own_step r r1" "(own_step ^^ n) r1 r'" by (blast dest: relpowp_Suc_D2)
  with Suc.prems(2) have "n + req_measure r' \<le> req_measure r1" by (blast intro: Suc.IH own_step_wf)
  moreover have "req_measure r1 < req_measure r" using r1(1) Suc.prems(2) by (rule own_step_measure)
  ultimately show ?case by simp
qed

lemma req_measure_lock:
  "req_measure (lock ms ls k) = 12 * nat (max 0 (ls_retries ls + 1)) + 22"
  by (simp add: measure_simps lock_def aquire_def)

subsection \<open>A bound on the steps of a call\<close>

lemma redis_exec_sent:
  "rq_phase r \<in> {SetnxSent, GetSent, GetSetSent} \<Longrightarrow> \<exists>r' st'. redis_exec r st = Some (r', st')"
  by (auto simp: redis_exec_def split: prod.split)

text \<open>
  C19. A call of \<open>lock\<close> makes at most \<open>12 * (max 0 (retries + 1)) + 22\<close> own steps:
  at most \<open>max 0 (retries + 1) + 1\<close> attempts of at most twelve steps each.
\<close>

theorem lock_steps_bound:
  "(own_step ^^ n) (lock ms ls k) r' \<Longrightarrow> n \<le> 12 * nat (max 0 (ls_retries ls + 1)) + 22"
  using own_steps_measure [OF _ wf_req_lock] req_measure_lock by fastforce

theorem lock_steps_bound_witness:
  "(own_step ^^ 1) (lock 0 (Locksmith None) None)
     ((lock 0 (Locksmith None) None)\<lparr>rq_phase := SetnxReplied (Inr 1)\<rparr>) \<and> (1::nat) \<le> 154"
proof -
  let ?r = "lock 0 (Locksmith None) None"
  have "redis_exec ?r Map.empty = Some (?r\<lparr>rq_phase := SetnxReplied (Inr 1)\<rparr>, Map.empty(rq_full ?r \<mapsto> rq_expires ?r))"
    by (simp add: redis_exec_def lock_def aquire_def)
  then have step: "(own_step ^^ 1) ?r (?r\<lparr>rq_phase := SetnxReplied (Inr 1)\<rparr>)"
    unfolding relpowp_1 own_step_def by blast
  have "(1::nat) \<le> 12 * nat (max 0 (ls_retries (Locksmith None) + 1)) + 22"
    by (rule lock_steps_bound [OF step])
  with step show ?thesis by (simp add: Locksmith_fields)
qed

end
