(* ===== verification/Solo.thy ===== *)
theory Solo
  imports Termination
begin

text \<open>
  One request alone against the store: no other client touches its key, Redis executes
  each command at once and without failure, the reply's callback runs at once, and the
  clock advances only when the retry timer is due. \<open>solo_step\<close> is one such step and
  \<open>solo\<close> runs them with fuel, returning the clock, the request and the store once the
  request's callback has been called, and \<open>None\<close> when the fuel runs out first. The fuel
  \<open>req_measure r\<close> of \<open>Termination\<close> is always enough; a solo run is a run of the
  system of \<open>System\<close>; and the result of contending for a lease that another process
  holds is computed exactly: the request retries once a second until the lease has
  expired and then takes it over, or gives up when its budget runs out first.
\<close>

definition solo_step :: "millis \<Rightarrow> req \<Rightarrow> store \<Rightarrow> (millis \<times> req \<times> store) option" where
  "solo_step ms r st =
     (case rq_phase r of
        Sleeping w \<Rightarrow> map_option (\<lambda>r'. (max ms w, r', st)) (callback (max ms w) r)
      | _ \<Rightarrow> (case redis_exec r st of
               Some (r', st') \<Rightarrow> Some (ms, r', st')
             | None \<Rightarrow> map_option (\<lambda>r'. (ms, r', st)) (callback ms r)))"

fun solo :: "nat \<Rightarrow> millis \<Rightarrow> req \<Rightarrow> store \<Rightarrow> (millis \<times> req \<times> store) option" where
  "solo 0 ms r st = (if finished (rq_phase r) then Some (ms, r, st) else None)"
| "solo (Suc n) ms r st =
     (if finished (rq_phase r) then Some (ms, r, st)
      else (case solo_step ms r st of
              None \<Rightarrow> None
            | Some (ms', r', st') \<Rightarrow> solo n ms' r' st'))"

definition solo_sys :: "millis \<Rightarrow> req \<Rightarrow> store \<Rightarrow> sys" where
  "solo_sys ms r st = \<lparr>sys_store = st, sys_clock = ms, sys_reqs = [r], sys_dels = [], sys_log = []\<rparr>"

text \<open>An instance with one retry and the default 10-second lease, for the examples.\<close>

definition ls_solo :: locksmith where
  "ls_solo = Locksmith (Some (no_options\<lparr>opt_retries := Some 1\<rparr>))"

subsection \<open>Solo steps\<close>

lemma ls_solo_fields [simp]:
  "ls_prefix ls_solo = ''__locksmith:''" "ls_timeout ls_solo = 10" "ls_retries ls_solo = 1"
  by (simp_all add: ls_solo_def Locksmith_fields no_options_def)


lemma solo_finished [simp]: "finished (rq_phase r) \<Longrightarrow> solo n ms r st = Some (ms, r, st)"
  by (cases n) simp_all

lemma solo_step_own: "solo_step ms r st = Some (ms', r', st') \<Longrightarrow> own_step r r'"
  unfolding solo_step_def own_step_def
  by (auto split: phase.splits option.splits prod.splits)

lemma solo_step_total:
  assumes "\<not> finished (rq_phase r)"
  shows "\<exists>res. solo_step ms r st = Some res"
proof (cases "rq_phase r \<in> {SetnxSent, GetSent, GetSetSent}")
  case True
  then obtain r' st' where "redis_exec r st = Some (r', st')" using redis_exec_sent by blast
  with True show ?thesis by (auto simp: solo_step_def)
next
  case False
  with assms show ?thesis
    by (cases "rq_phase r") (auto simp: solo_step_def callback_def redis_exec_def)
qed

lemma solo_step_sys:
  assumes "solo_step ms r st = Some (ms', r', st')"
  shows "(sys_step e)\<^sup>*\<^sup>* (solo_sys ms r st) (solo_sys ms' r' st')"
proof (cases "\<exists>w. rq_phase r = Sleeping w")
  case True
  then obtain w where w: "rq_phase r = Sleeping w" by blast
  with assms have ms': "ms' = max ms w" and st': "st' = st" and cb: "callback ms' r = Some r'"
    by (auto simp: solo_step_def)
  have tick: "(sys_step e)\<^sup>*\<^sup>* (solo_sys ms r st) (solo_sys ms' r st)"
  proof (cases "ms < w")
    case True
    have "sys_step e (solo_sys ms r st) ((solo_sys ms r st)\<lparr>sys_clock := w\<rparr>)"
      by (rule sys_step.tick) (use True w in \<open>simp_all add: solo_sys_def quiescent_def\<close>)
    then show ?thesis using True ms' by (simp add: solo_sys_def max_def)
  qed (use ms' in \<open>simp add: max_def\<close>)
  from sys_step.run_callback [where i = 0 and s = "solo_sys ms' r st" and r = r'] cb
  have "sys_step e (solo_sys ms' r st) (solo_sys ms' r' st)" by (simp add: solo_sys_def)
  with tick st' show ?thesis by simp
next
  case False
  show ?thesis
  proof (cases "redis_exec r st")
    case (Some a)
    with False assms have ex: "redis_exec r st = Some (r', st')" and ms': "ms' = ms"
      by (auto simp: solo_step_def split: phase.splits prod.splits)
    from sys_step.exec [where i = 0 and s = "solo_sys ms r st" and r = r' and st = st'] ex
    have "sys_step e (solo_sys ms r st) (solo_sys ms r' st')" by (simp add: solo_sys_def)
    then show ?thesis using ms' by simp
  next
    case None
    with False assms have cb: "callback ms r = Some r'" and ms': "ms' = ms" and st': "st' = st"
      by (auto simp: solo_step_def split: phase.splits)
    from sys_step.run_callback [where i = 0 and s = "solo_sys ms r st" and r = r'] cb
    have "sys_step e (solo_sys ms r st) (solo_sys ms r' st)" by (simp add: solo_sys_def)
    then show ?thesis using ms' st' by simp
  qed
qed

subsection \<open>One attempt\<close>

text \<open>
  An attempt starts with \<open>aquire\<close>. On a free key it wins with \<open>SETNX\<close>; on an
  expired lease it takes it over with \<open>GETSET\<close>; on a running lease it retries, giving
  up when the budget is spent and otherwise starting the next attempt a second later.
\<close>

lemma solo_attempt_free:
  assumes "st (rq_full r) = None"
  shows "solo (n + 2) ms (aquire ms r) st =
    Some (ms, r\<lparr>rq_expires := unix ms + ls_timeout (rq_ls r),
      rq_phase := Done (Inr \<lparr>h_key = rq_key r, h_expires = unix ms + ls_timeout (rq_ls r)\<rparr>)\<rparr>,
      st(rq_full r \<mapsto> unix ms + ls_timeout (rq_ls r)))"
  using assms by (simp add: solo_step_def redis_exec_def callback_def aquire_def grant_def numeral_2_eq_2)

lemma solo_attempt_expired:
  assumes "st (rq_full r) = Some e" "e \<le> unix ms"
  shows "solo (n + 6) ms (aquire ms r) st =
    Some (ms, r\<lparr>rq_expires := unix ms + ls_timeout (rq_ls r),
      rq_phase := Done (Inr \<lparr>h_key = rq_key r, h_expires = unix ms + ls_timeout (rq_ls r)\<rparr>)\<rparr>,
      st(rq_full r \<mapsto> unix ms + ls_timeout (rq_ls r)))"
  using assms
  by (simp add: solo_step_def redis_exec_def callback_def aquire_def grant_def redis_get_def
      redis_getset_def eval_nat_numeral)

lemma solo_attempt_give_up:
  assumes "st (rq_full r) = Some e" "unix ms < e" "ls_retries (rq_ls r) < int (rq_retries r)"
  shows "solo (n + 4) ms (aquire ms r) st =
    Some (ms, r\<lparr>rq_retries := Suc (rq_retries r), rq_expires := unix ms + ls_timeout (rq_ls r),
      rq_phase := Done (Inl (MaxRetriesHit (max_retries_msg (rq_key r))))\<rparr>, st)"
  using assms
  by (simp add: solo_step_def redis_exec_def callback_def aquire_def retry_def redis_get_def
      eval_nat_numeral)

lemma solo_attempt_held:
  assumes "st (rq_full r) = Some e" "unix ms < e" "\<not> ls_retries (rq_ls r) < int (rq_retries r)"
  shows "solo (n + 5) ms (aquire ms r) st =
    solo n (ms + 1000) (aquire (ms + 1000) (r\<lparr>rq_retries := Suc (rq_retries r)\<rparr>)) st"
  using assms
  by (simp add: solo_step_def redis_exec_def callback_def aquire_def retry_def redis_get_def
      eval_nat_numeral)

text \<open>What the simplifier unfolds to run \<open>solo\<close> on a concrete call.\<close>

lemmas solo_eval = numeral_2_eq_2 solo_step_def redis_exec_def callback_def lock_def aquire_def
  grant_def rq_full_def full_key_def lock_key_def unix_def

lemma rank_zero_finished: "phase_rank p = 0 \<Longrightarrow> finished p"
  by (cases p rule: phase_rank.cases) simp_all

lemma unix_add_seconds: "unix (ms + 1000 * int k) = unix ms + int k"
  by (simp add: unix_def)

lemma solo_wait:
  assumes "st (rq_full r) = Some e" "\<forall>j<k. unix ms + int j < e"
    "\<forall>j<k. int (rq_retries r + j) \<le> ls_retries (rq_ls r)"
  shows "solo (n + 5 * k) ms (aquire ms r) st =
    solo n (ms + 1000 * int k) (aquire (ms + 1000 * int k) (r\<lparr>rq_retries := rq_retries r + k\<rparr>)) st"
  using assms
proof (induction k arbitrary: ms r)
  case 0
  then show ?case by simp
next
  case (Suc k)
  let ?r1 = "r\<lparr>rq_retries := Suc (rq_retries r)\<rparr>"
  have "solo (n + 5 * Suc k) ms (aquire ms r) st = solo (n + 5 * k + 5) ms (aquire ms r) st"
    by (simp add: algebra_simps)
  also have "\<dots> = solo (n + 5 * k) (ms + 1000) (aquire (ms + 1000) ?r1) st"
    using Suc.prems by (intro solo_attempt_held) auto
  also have "\<dots> = solo n (ms + 1000 + 1000 * int k)
      (aquire (ms + 1000 + 1000 * int k) (?r1\<lparr>rq_retries := rq_retries ?r1 + k\<rparr>)) st"
  proof (rule Suc.IH)
    show "st (rq_full ?r1) = Some e" using Suc.prems(1) by simp
    show "\<forall>j<k. unix (ms + 1000) + int j < e" using Suc.prems(2) by (auto simp: unix_add_second)
    show "\<forall>j<k. int (rq_retries ?r1 + j) \<le> ls_retries (rq_ls ?r1)" using Suc.prems(3) by auto
  qed
  finally show ?case by (simp add: algebra_simps)
qed

subsection \<open>Enough fuel, and the solo run is a run of the system\<close>

text \<open>
  C21. A solo run ends: with fuel at least the request's measure, \<open>solo\<close> returns a
  state in which the request's callback has been called. For a fresh call of
  \<open>lock\<close> the fuel \<open>12 * max 0 (retries + 1) + 22\<close> is enough.
\<close>

theorem solo_enough_fuel:
  "wf_req r \<Longrightarrow> req_measure r \<le> n \<Longrightarrow>
     \<exists>ms' r' st'. solo n ms r st = Some (ms', r', st') \<and> finished (rq_phase r')"
proof (induction n arbitrary: ms r st)
  case 0
  then have "finished (rq_phase r)" by (intro rank_zero_finished) (simp add: req_measure_def)
  then show ?case by simp
next
  case (Suc n)
  show ?case
  proof (cases "finished (rq_phase r)")
    case False
    then obtain ms1 r1 st1 where st: "solo_step ms r st = Some (ms1, r1, st1)"
      using solo_step_total by (metis prod_cases3)
    then have own: "own_step r r1" by (rule solo_step_own)
    have "req_measure r1 \<le> n" using own_step_measure [OF own Suc.prems(1)] Suc.prems(2) by simp
    then show ?thesis using Suc.IH [OF own_step_wf [OF own Suc.prems(1)]] st False by simp
  qed simp
qed

lemma solo_sys_steps:
  "solo n ms r st = Some (ms', r', st') \<Longrightarrow> (sys_step e)\<^sup>*\<^sup>* (solo_sys ms r st) (solo_sys ms' r' st')"
proof (induction n arbitrary: ms r st)
  case 0
  then show ?case by (simp split: if_splits)
next
  case (Suc n)
  show ?case
  proof (cases "finished (rq_phase r)")
    case False
    with Suc.prems obtain ms1 r1 st1 where st: "solo_step ms r st = Some (ms1, r1, st1)"
      and rest: "solo n ms1 r1 st1 = Some (ms', r', st')"
      by (auto split: option.splits)
    from solo_step_sys [OF st] Suc.IH [OF rest] show ?thesis by (rule rtranclp_trans)
  qed (use Suc.prems in simp)
qed

lemma reachable_steps: "(sys_step e)\<^sup>*\<^sup>* s s' \<Longrightarrow> reachable e s \<Longrightarrow> reachable e s'"
  by (induction rule: rtranclp_induct) (auto intro: reachable.step)

lemma solo_sys_lock: "ls \<in> set (env_procs e) \<Longrightarrow> reachable e (solo_sys ms (lock ms ls k) st)"
proof -
  assume "ls \<in> set (env_procs e)"
  then have "sys_step e (init_sys st ms) ((init_sys st ms)\<lparr>sys_reqs := sys_reqs (init_sys st ms) @
      [lock (sys_clock (init_sys st ms)) ls k]\<rparr>)" by (rule sys_step.call_lock)
  then have "reachable e ((init_sys st ms)\<lparr>sys_reqs := sys_reqs (init_sys st ms) @
      [lock (sys_clock (init_sys st ms)) ls k]\<rparr>)" by (rule reachable.step [OF reachable.init])
  then show ?thesis by (simp add: init_sys_def solo_sys_def)
qed

lemma solo_refines_system:
  "ls \<in> set (env_procs e) \<Longrightarrow> solo n ms (lock ms ls k) st = Some (ms', r', st') \<Longrightarrow>
     reachable e (solo_sys ms' r' st')"
  by (blast intro: reachable_steps solo_sys_lock solo_sys_steps)

subsection \<open>Contending for a held lease\<close>

text \<open>
  C22. A fresh call of \<open>lock\<close>, alone against a store whose lease on its key expires at
  second \<open>e\<close>, gets the lock exactly when that lease has expired: it retries once a
  second, \<open>k = max 0 (e - now)\<close> times, and then takes the lease over with \<open>GETSET\<close>,
  writing \<open>now + k + timeout\<close>, provided the budget allows \<open>k\<close> retries
  (\<open>k \<le> max 0 (retries + 1)\<close>).
\<close>

theorem lock_waits_for_expiry:
  assumes "st (full_key ls (lock_key key)) = Some e" "int k = max 0 (e - unix ms)"
    "int k \<le> max 0 (ls_retries ls + 1)"
  shows "solo (n + 5 * k + 6) ms (lock ms ls key) st =
    Some (ms + 1000 * int k,
      \<lparr>rq_ls = ls, rq_key = lock_key key, rq_retries = k,
       rq_expires = unix ms + int k + ls_timeout ls,
       rq_phase = Done (Inr \<lparr>h_key = lock_key key, h_expires = unix ms + int k + ls_timeout ls\<rparr>)\<rparr>,
      st(full_key ls (lock_key key) \<mapsto> unix ms + int k + ls_timeout ls))"
proof -
  define r0 where "r0 = \<lparr>rq_ls = ls, rq_key = lock_key key, rq_retries = 0, rq_expires = 0, rq_phase = SetnxSent\<rparr>"
  have fuel: "n + 5 * k + 6 = n + 6 + 5 * k" by simp
  have "solo (n + 6 + 5 * k) ms (aquire ms r0) st =
      solo (n + 6) (ms + 1000 * int k) (aquire (ms + 1000 * int k) (r0\<lparr>rq_retries := rq_retries r0 + k\<rparr>)) st"
    by (rule solo_wait [where e = e]) (use assms in \<open>auto simp: r0_def rq_full_def\<close>)
  also have "\<dots> = Some (ms + 1000 * int k,
      r0\<lparr>rq_retries := k\<rparr>\<lparr>rq_expires := unix ms + int k + ls_timeout ls,
        rq_phase := Done (Inr \<lparr>h_key = lock_key key, h_expires = unix ms + int k + ls_timeout ls\<rparr>)\<rparr>,
      st(full_key ls (lock_key key) \<mapsto> unix ms + int k + ls_timeout ls))"
  proof -
    have u: "unix (ms + 1000 * int k) = unix ms + int k" by (rule unix_add_seconds)
    have le: "e \<le> unix ms + int k" using assms(2) by linarith
    show ?thesis using assms(1) le
      by (subst solo_attempt_expired [where e = e]) (simp_all only: u, simp_all add: r0_def rq_full_def)
  qed
  finally show ?thesis unfolding fuel by (simp add: lock_def r0_def)
qed

text \<open>
  C23. When the lease outlives the budget, the call gives up with \<open>MaxRetriesHit\<close>
  after \<open>max 0 (retries + 1)\<close> seconds of retrying, with its counter at one more, and
  leaves the store untouched: one retry more than the configured maximum.
\<close>

theorem lock_gives_up:
  assumes "st (full_key ls (lock_key key)) = Some e" "unix ms + max 0 (ls_retries ls + 1) < e"
  shows "solo (n + 5 * nat (max 0 (ls_retries ls + 1)) + 4) ms (lock ms ls key) st =
    Some (ms + 1000 * max 0 (ls_retries ls + 1),
      \<lparr>rq_ls = ls, rq_key = lock_key key, rq_retries = Suc (nat (max 0 (ls_retries ls + 1))),
       rq_expires = unix ms + max 0 (ls_retries ls + 1) + ls_timeout ls,
       rq_phase = Done (Inl (MaxRetriesHit (max_retries_msg (lock_key key))))\<rparr>, st)"
proof -
  define j where "j = nat (max 0 (ls_retries ls + 1))"
  have j: "int j = max 0 (ls_retries ls + 1)" by (simp add: j_def)
  define r0 where "r0 = \<lparr>rq_ls = ls, rq_key = lock_key key, rq_retries = 0, rq_expires = 0, rq_phase = SetnxSent\<rparr>"
  have fuel: "n + 5 * j + 4 = n + 4 + 5 * j" by simp
  have "solo (n + 4 + 5 * j) ms (aquire ms r0) st =
      solo (n + 4) (ms + 1000 * int j) (aquire (ms + 1000 * int j) (r0\<lparr>rq_retries := rq_retries r0 + j\<rparr>)) st"
    by (rule solo_wait [where e = e]) (use assms j in \<open>auto simp: r0_def rq_full_def\<close>)
  also have "\<dots> = Some (ms + 1000 * int j,
      r0\<lparr>rq_retries := j\<rparr>\<lparr>rq_retries := Suc j, rq_expires := unix ms + int j + ls_timeout ls,
        rq_phase := Done (Inl (MaxRetriesHit (max_retries_msg (lock_key key))))\<rparr>, st)"
  proof -
    have u: "unix (ms + 1000 * int j) = unix ms + int j" by (rule unix_add_seconds)
    have lt: "unix ms + int j < e" using assms(2) j by linarith
    have m: "ls_retries ls < int j" using j by linarith
    show ?thesis using assms(1) lt m
      by (subst solo_attempt_give_up [where e = e]) (simp_all only: u, simp_all add: r0_def rq_full_def)
  qed
  finally show ?thesis unfolding fuel j_def [symmetric] using j by (simp add: lock_def r0_def)
qed

theorem lock_waits_for_expiry_witness:
  "[''__locksmith:x'' \<mapsto> (2::int)] (full_key ls_solo (lock_key (Some ''x''))) = Some 2 \<and>
   int 2 = max 0 (2 - unix 0) \<and> int 2 \<le> max 0 (ls_retries ls_solo + 1) \<and>
   solo 16 0 (lock 0 ls_solo (Some ''x'')) [''__locksmith:x'' \<mapsto> (2::int)] =
     Some (2000, \<lparr>rq_ls = ls_solo, rq_key = ''x'', rq_retries = 2, rq_expires = 12,
       rq_phase = Done (Inr \<lparr>h_key = ''x'', h_expires = 12\<rparr>)\<rparr>, [''__locksmith:x'' \<mapsto> (12::int)])"
proof -
  have h: "[''__locksmith:x'' \<mapsto> (2::int)] (full_key ls_solo (lock_key (Some ''x''))) = Some 2"
    "int 2 = max 0 (2 - unix 0)" "int 2 \<le> max 0 (ls_retries ls_solo + 1)"
    by (simp_all add: full_key_def lock_key_def unix_def)
  have c: "solo (0 + 5 * 2 + 6) 0 (lock 0 ls_solo (Some ''x'')) [''__locksmith:x'' \<mapsto> (2::int)] =
    Some (0 + 1000 * int 2,
      \<lparr>rq_ls = ls_solo, rq_key = lock_key (Some ''x''), rq_retries = 2,
       rq_expires = unix 0 + int 2 + ls_timeout ls_solo,
       rq_phase = Done (Inr \<lparr>h_key = lock_key (Some ''x''), h_expires = unix 0 + int 2 + ls_timeout ls_solo\<rparr>)\<rparr>,
      [''__locksmith:x'' \<mapsto> (2::int)](full_key ls_solo (lock_key (Some ''x'')) \<mapsto> unix 0 + int 2 + ls_timeout ls_solo))"
    by (rule lock_waits_for_expiry [where st = "[''__locksmith:x'' \<mapsto> (2::int)]" and ls = ls_solo
      and key = "Some ''x''" and e = 2 and k = 2 and ms = 0 and n = 0, OF h])
  from c h show ?thesis
    by (simp add: full_key_def lock_key_def unix_def)
qed

theorem lock_gives_up_witness:
  "[''__locksmith:x'' \<mapsto> (9::int)] (full_key ls_solo (lock_key (Some ''x''))) = Some 9 \<and>
   unix 0 + max 0 (ls_retries ls_solo + 1) < 9 \<and>
   solo 14 0 (lock 0 ls_solo (Some ''x'')) [''__locksmith:x'' \<mapsto> (9::int)] =
     Some (2000, \<lparr>rq_ls = ls_solo, rq_key = ''x'', rq_retries = 3, rq_expires = 12,
       rq_phase = Done (Inl (MaxRetriesHit (max_retries_msg ''x'')))\<rparr>, [''__locksmith:x'' \<mapsto> (9::int)])"
proof -
  have h: "[''__locksmith:x'' \<mapsto> (9::int)] (full_key ls_solo (lock_key (Some ''x''))) = Some 9"
    "unix 0 + max 0 (ls_retries ls_solo + 1) < 9"
    by (simp_all add: full_key_def lock_key_def unix_def)
  from lock_gives_up [where st = "[''__locksmith:x'' \<mapsto> (9::int)]" and ls = ls_solo
      and key = "Some ''x''" and e = 9 and ms = 0 and n = 0, OF h] h show ?thesis
    by (simp add: full_key_def lock_key_def unix_def)
qed

theorem solo_enough_fuel_witness:
  "wf_req (lock 0 ls_solo None) \<and> req_measure (lock 0 ls_solo None) \<le> 46 \<and>
   (\<exists>ms' r' st'. solo 46 0 (lock 0 ls_solo None) Map.empty = Some (ms', r', st') \<and> finished (rq_phase r'))"
proof -
  have h: "wf_req (lock 0 ls_solo None)" "req_measure (lock 0 ls_solo None) \<le> 46"
    by (simp_all add: wf_req_lock req_measure_lock)
  with solo_enough_fuel [OF h] show ?thesis by blast
qed

end
