(* ===== verification/Exports.thy ===== *)
theory Exports
  imports Solo Typing
begin

text \<open>
  The module's interface (lines 117--121 of \<open>src/index.js\<close>): the exported factory
  builds one \<open>Locksmith\<close> instance from the caller's options and returns its
  \<open>lock\<close> bound to it; \<open>module.exports.Locksmith\<close> is the constructor itself.
  Because the constructor deletes the options it has consumed from the caller's object,
  the factory's second result is the options object as the caller sees it afterwards.
\<close>

definition module_exports :: "options option \<Rightarrow> (millis \<Rightarrow> string option \<Rightarrow> req) \<times> options option" where
  "module_exports options =
     (let (locksmith, options') = new_Locksmith options
      in (\<lambda>ms key. lock ms locksmith key, options'))"

lemma module_exports_lock:
  "fst (module_exports opts) ms k = lock ms (Locksmith opts) k"
  "snd (module_exports opts) = map_option delete_consumed opts"
  by (simp_all add: module_exports_def new_Locksmith_def)

lemma delete_consumed_fields [simp]:
  "opt_prefix (delete_consumed opt) = None" "opt_timeout (delete_consumed opt) = None"
  "opt_retries (delete_consumed opt) = opt_retries opt"
  "opt_redisClient (delete_consumed opt) = opt_redisClient opt"
  by (simp_all add: delete_consumed_def)

text \<open>
  C24. Building a second lock function from the same options object does not give the
  same lock: the first call has deleted \<open>prefix\<close> and \<open>timeout\<close> from the object, so the
  second instance falls back to the constructor's defaults for both, whatever the
  caller configured, while it keeps the configured retry budget. The two functions lock
  the same Redis key for a name exactly when the first one used the default prefix too.
\<close>

theorem exports_reuse_options:
  "(rq_full (fst (module_exports (Some opt)) ms k) =
      rq_full (fst (module_exports (snd (module_exports (Some opt)))) ms' k)) =
     (js_or_str (opt_prefix opt) ''__locksmith:'' = ls_prefix (Locksmith None)) \<and>
   ls_prefix (rq_ls (fst (module_exports (snd (module_exports (Some opt)))) ms' k)) =
     ls_prefix (Locksmith None) \<and>
   ls_timeout (rq_ls (fst (module_exports (snd (module_exports (Some opt)))) ms' k)) =
     ls_timeout (Locksmith None) \<and>
   ls_retries (rq_ls (fst (module_exports (snd (module_exports (Some opt)))) ms' k)) =
     ls_retries (rq_ls (fst (module_exports (Some opt)) ms k))"
  by (simp add: module_exports_lock Locksmith_fields full_key_def no_options_def)

end
