(* ===== verification/Lifecycle.thy ===== *)
theory Lifecycle
  imports Solo
begin

text \<open>
  The life of one lease, from a solo run of \<open>lock\<close> to the call of its release
  function. \<open>solo_inv\<close> says that a command in flight carries the lease of the current
  second plus the timeout, and so does a granted handle: the lease a call of \<open>lock\<close>
  gets runs exactly \<open>timeout\<close> seconds from the second it was granted. Acquiring a
  free key and releasing it in time gives the store back as it was; with a timeout that
  is not positive, every lock is granted already expired and its release only logs.
\<close>

text \<open>An instance whose lease timeout is negative, which the constructor accepts.\<close>

definition ls_negative :: locksmith where
  "ls_negative = Locksmith (Some (no_options\<lparr>opt_timeout := Some (-1)\<rparr>))"

definition solo_inv :: "locksmith \<Rightarrow> millis \<Rightarrow> req \<Rightarrow> bool" where
  "solo_inv ls ms r \<longleftrightarrow> rq_ls r = ls \<and>
     (case rq_phase r of
        SetnxSent \<Rightarrow> rq_expires r = unix ms + ls_timeout ls
      | SetnxReplied _ \<Rightarrow> rq_expires r = unix ms + ls_timeout ls
      | GetSetSent \<Rightarrow> rq_expires r = unix ms + ls_timeout ls
      | GetSetReplied _ \<Rightarrow> rq_expires r = unix ms + ls_timeout ls
      | Done (Inr h) \<Rightarrow> h_expires h = unix ms + ls_timeout ls
      | _ \<Rightarrow> True)"

lemma solo_inv_step:
  assumes "solo_step ms r st = Some (ms', r', st')" "solo_inv ls ms r"
  shows "solo_inv ls ms' r'"
proof (cases "rq_phase r")
  case (SetnxReplied rep)
  with assms show ?thesis
    by (cases rep) (auto simp: solo_step_def solo_inv_def redis_exec_def callback_def grant_def)
next
  case (GetReplied rep)
  with assms show ?thesis
    by (cases rep) (auto simp: solo_step_def solo_inv_def redis_exec_def callback_def retry_def)
next
  case (GetSetReplied rep)
  with assms show ?thesis
    by (cases rep) (auto simp: solo_step_def solo_inv_def redis_exec_def callback_def grant_def retry_def)
next
  case (Done res)
  with assms show ?thesis
    by (cases res) (auto simp: solo_step_def solo_inv_def redis_exec_def callback_def)
qed (use assms in \<open>auto simp: solo_step_def solo_inv_def redis_exec_def callback_def aquire_def
      split: prod.splits\<close>)

lemma solo_inv_run:
  "solo n ms r st = Some (ms', r', st') \<Longrightarrow> solo_inv ls ms r \<Longrightarrow> solo_inv ls ms' r'"
proof (induction n arbitrary: ms r st)
  case 0
  then show ?case by (simp split: if_splits)
next
  case (Suc n)
  show ?case
  proof (cases "finished (rq_phase r)")
    case False
    with Suc.prems obtain ms1 r1 st1 where st: "solo_step ms r st = Some (ms1, r1, st1)"
      and rest: "solo n ms1 r1 st1 = Some (ms', r', st')"
      by (auto split: option.splits)
    show ?thesis by (rule Suc.IH [OF rest solo_inv_step [OF st Suc.prems(2)]])
  qed (use Suc.prems in simp)
qed

lemma solo_grant_expiry:
  assumes "solo n ms (lock ms ls k) st = Some (ms', r, st')" "rq_phase r = Done (Inr h)"
  shows "h_expires h = unix ms' + ls_timeout ls"
proof -
  have "solo_inv ls ms (lock ms ls k)" by (simp add: solo_inv_def lock_def aquire_def)
  then have "solo_inv ls ms' r" by (rule solo_inv_run [OF assms(1)])
  then show ?thesis using assms(2) by (simp add: solo_inv_def)
qed

lemma ls_negative_fields [simp]:
  "ls_prefix ls_negative = ''__locksmith:''" "ls_timeout ls_negative = -1" "ls_retries ls_negative = 100"
  by (simp_all add: ls_negative_def Locksmith_fields no_options_def)

lemma solo_free_result:
  assumes "st (rq_full r) = None" "solo n ms (aquire ms r) st = Some res"
  shows "res = (ms, r\<lparr>rq_expires := unix ms + ls_timeout (rq_ls r),
      rq_phase := Done (Inr \<lparr>h_key = rq_key r, h_expires = unix ms + ls_timeout (rq_ls r)\<rparr>)\<rparr>,
      st(rq_full r \<mapsto> unix ms + ls_timeout (rq_ls r)))"
proof (cases "n < 2")
  case True
  then consider "n = 0" | "n = 1" by linarith
  then show ?thesis using assms
    by cases (simp_all add: solo_step_def redis_exec_def aquire_def)
next
  case False
  then obtain m where "n = m + 2" by (metis add.commute le_Suc_ex not_less)
  with assms solo_attempt_free [where st = st and r = r and n = m and ms = ms, OF assms(1)]
  show ?thesis by simp
qed

text \<open>
  C26. Acquiring and releasing is a round trip on the store: a call of \<open>lock\<close> that
  takes a free key alone, released while its lease runs, sends \<open>DEL\<close> for that key,
  and the \<open>DEL\<close> gives the store back exactly as it was before the call.
\<close>

theorem lock_release_roundtrip:
  assumes "st (full_key ls (lock_key k)) = None" "solo n ms (lock ms ls k) st = Some (ms1, r, st1)"
    "rq_phase r = Done (Inr h)" "lease_live ms2 (h_expires h)"
  shows "release ms2 ls h = DelSent (full_key ls (lock_key k)) \<and>
    snd (redis_del (full_key ls (lock_key k)) st1) = st"
proof -
  define r0 where "r0 = \<lparr>rq_ls = ls, rq_key = lock_key k, rq_retries = 0, rq_expires = 0, rq_phase = SetnxSent\<rparr>"
  have free: "st (rq_full r0) = None" using assms(1) by (simp add: r0_def rq_full_def)
  have "solo n ms (aquire ms r0) st = Some (ms1, r, st1)" using assms(2) by (simp add: lock_def r0_def)
  from solo_free_result [OF free this] assms(3)
  have h: "h_key h = lock_key k" and st1: "st1 = st(full_key ls (lock_key k) \<mapsto> unix ms + ls_timeout ls)"
    by (auto simp: r0_def rq_full_def)
  have "release ms2 ls h = DelSent (full_key ls (lock_key k))" using release_live [OF assms(4)] h by simp
  moreover have "snd (redis_del (full_key ls (lock_key k)) st1) = st"
    using assms(1) st1 by (auto simp: redis_del_def)
  ultimately show ?thesis ..
qed

text \<open>
  C27. The constructor accepts a timeout that is not positive (\<open>options.timeout || 10\<close>
  keeps a negative number), and then every lock a call gets is granted already expired:
  its release function, called at the grant or later, never deletes and only logs a late
  release.
\<close>

theorem nonpositive_timeout_release_late:
  assumes "ls_timeout ls \<le> 0" "solo n ms (lock ms ls k) st = Some (ms1, r, st1)"
    "rq_phase r = Done (Inr h)" "ms1 \<le> ms2"
  shows "\<not> lease_live ms1 (h_expires h) \<and> release ms2 ls h = LateReleaseLog (late_release_msg (h_key h))"
proof -
  have e: "h_expires h = unix ms1 + ls_timeout ls" using assms(2,3) by (rule solo_grant_expiry)
  have "unix ms1 \<le> unix ms2" using assms(4) by (rule unix_mono)
  then have "\<not> lease_live ms2 (h_expires h)" "\<not> lease_live ms1 (h_expires h)"
    using e assms(1) by (simp_all add: lease_live_def)
  then show ?thesis by (simp add: release_late)
qed

theorem lock_release_roundtrip_witness:
  "Map.empty (full_key ls_solo (lock_key (Some ''x''))) = (None :: int option) \<and>
   solo 2 0 (lock 0 ls_solo (Some ''x'')) Map.empty =
     Some (0, \<lparr>rq_ls = ls_solo, rq_key = ''x'', rq_retries = 0, rq_expires = 10,
       rq_phase = Done (Inr \<lparr>h_key = ''x'', h_expires = 10\<rparr>)\<rparr>, [''__locksmith:x'' \<mapsto> 10]) \<and>
   lease_live 5000 10 \<and>
   release 5000 ls_solo \<lparr>h_key = ''x'', h_expires = 10\<rparr> = DelSent ''__locksmith:x'' \<and>
   snd (redis_del ''__locksmith:x'' [''__locksmith:x'' \<mapsto> 10]) = Map.empty"
proof -
  have h1: "Map.empty (full_key ls_solo (lock_key (Some ''x''))) = (None :: int option)" by simp
  have h2: "solo 2 0 (lock 0 ls_solo (Some ''x'')) Map.empty =
     Some (0, \<lparr>rq_ls = ls_solo, rq_key = ''x'', rq_retries = 0, rq_expires = 10,
       rq_phase = Done (Inr \<lparr>h_key = ''x'', h_expires = 10\<rparr>)\<rparr>, [''__locksmith:x'' \<mapsto> 10])"
    by (simp add: solo_eval)
  have h4: "lease_live 5000 (h_expires \<lparr>h_key = ''x'', h_expires = 10\<rparr>)" by (simp add: lease_live_def unix_def)
  from lock_release_roundtrip [OF h1 h2 _ h4] h1 h2 h4 show ?thesis
    by (simp add: full_key_def lock_key_def)
qed

theorem nonpositive_timeout_release_late_witness:
  "ls_timeout ls_negative \<le> 0 \<and>
   solo 2 0 (lock 0 ls_negative (Some ''x'')) Map.empty =
     Some (0, \<lparr>rq_ls = ls_negative, rq_key = ''x'', rq_retries = 0, rq_expires = -1,
       rq_phase = Done (Inr \<lparr>h_key = ''x'', h_expires = -1\<rparr>)\<rparr>, [''__locksmith:x'' \<mapsto> -1]) \<and>
   release 0 ls_negative \<lparr>h_key = ''x'', h_expires = -1\<rparr> = LateReleaseLog (late_release_msg ''x'')"
proof -
  have h1: "ls_timeout ls_negative \<le> 0" by simp
  have h2: "solo 2 0 (lock 0 ls_negative (Some ''x'')) Map.empty =
     Some (0, \<lparr>rq_ls = ls_negative, rq_key = ''x'', rq_retries = 0, rq_expires = -1,
       rq_phase = Done (Inr \<lparr>h_key = ''x'', h_expires = -1\<rparr>)\<rparr>, [''__locksmith:x'' \<mapsto> -1])"
    by (simp add: solo_eval)
  from nonpositive_timeout_release_late [OF h1 h2 _ order_refl] h1 h2 show ?thesis by simp
qed

end
