(* ===== verification/Spec2Isabelle.thy ===== *)
theory Spec2Isabelle
  imports Scenarios Exports Lifecycle
begin

text \<open>
  \<^bold>\<open>A verification development for locksmith\<close> (\<open>src/index.js\<close>), a Redis-backed
  distributed lock for Node.js: a lease is a key \<open>prefix + key\<close> holding the second at
  which it expires; \<open>lock\<close> claims it with \<open>SETNX\<close>, on contention reads it with
  \<open>GET\<close> and, if it has expired, takes it over with \<open>GETSET\<close>, retrying once a second
  up to a budget; the release function given to the winner deletes the key if the lease
  is still running.

  \<^bold>\<open>Parts of the program and where they are modelled.\<close>
  \<^item> \<open>Prelude\<close>: timestamps and store keys, JavaScript's \<open>x || d\<close> on strings and
    numbers (\<open>js_or_str\<close>, \<open>js_or_int\<close>) and \<open><\<close> between a number and a Redis reply
    that may be \<open>null\<close> (\<open>js_lt_reply\<close>); the collection \<open>lock_model_defs\<close> of
    definitions that evaluation unfolds; list lemmas shared by the invariant proofs.
  \<^item> \<open>Config\<close>: the constructor \<open>Locksmith\<close> (lines 10--34) as a function from the
    options object (a record of optional fields) to the instance record
    \<open>locksmith\<close> (client, prefix, timeout, retries); \<open>delete_consumed\<close> is the
    deletes of lines 20--23, and \<open>new_Locksmith\<close> returns the instance together with
    the caller's options object as the deletes leave it; \<open>full_key\<close> is
    \<open>this._prefix + key\<close>, \<open>lock_key\<close> the overload \<open>lock(cb)\<close>.
  \<^item> \<open>Store\<close>: the Redis commands \<open>SETNX\<close>, \<open>GET\<close>, \<open>GETSET\<close>, \<open>DEL\<close> on a map
    from keys to integers. Redis is not in the repository: these follow the interface of
    the spec (section 6), each command atomic.
  \<^item> \<open>Lease\<close>: \<open>moment().unix()\<close> as \<open>unix\<close> (milliseconds truncated to seconds),
    \<open>moment().add('seconds', t).unix()\<close> as \<open>expiry_at\<close>, and the test
    \<open>moment().unix() < expires\<close> as \<open>lease_live\<close>.
  \<^item> \<open>Acquire\<close>: \<open>lock\<close> (lines 36--89). A call is a request record \<open>req\<close> (the
    closure's \<open>key\<close>, \<open>retries\<close>, \<open>expires\<close>, the instance) with a \<open>phase\<close> naming
    the callback due next. One function per callback: \<open>aquire\<close>, \<open>handle_setnx\<close>
    (\<open>handleSetnx\<close>), \<open>handle_get\<close> (\<open>handleGet\<close>), \<open>retry\<close>, \<open>handle_getset\<close>
    (\<open>handleGetSet\<close>), \<open>grant\<close> (\<open>cb(null, release)\<close>); \<open>redis_exec\<close> and
    \<open>redis_fail\<close> are Redis executing or failing the command a request sent, and
    \<open>callback\<close> is the event loop running the due callback or the retry timer.
    Errors are values: \<open>Done (Inl (StoreError e))\<close> and
    \<open>Done (Inl (MaxRetriesHit msg))\<close> are the two calls \<open>cb(err)\<close>.
  \<^item> \<open>Release\<close>: \<open>_release\<close> (lines 91--105) as \<open>release\<close>, returning the effect it
    has: a \<open>DEL\<close> sent, or the late-release message logged; \<open>handle_del\<close> is the
    \<open>DEL\<close>'s callback \<open>handleDel\<close>, which prints an error.
  \<^item> \<open>System\<close>: processes sharing one store, as the inductive step relation
    \<open>sys_step\<close> over the record \<open>sys\<close> (store, clock in milliseconds, requests,
    pending \<open>DEL\<close>s, log): new call, clock tick, command executed or failed, callback
    run, release called, \<open>DEL\<close> executed or failed. The environment \<open>env\<close> fixes the
    instances and two disciplines the source does not enforce: zero latency (the clock
    does not advance while a command, reply or \<open>DEL\<close> is in flight) and single release.
  \<^item> \<open>Typing\<close>: the typing \<open>sys_typed\<close> of a deployment's states (requests of
    its instances, \<open>DEL\<close>s under their prefixes) and the keys it may write
    (\<open>owned_key\<close>).
  \<^item> \<open>Safety\<close>: the invariant \<open>lock_inv\<close> and mutual exclusion.
  \<^item> \<open>Trace\<close>: an executable scheduler \<open>sys_exec\<close>/\<open>run\<close> over events, equivalent
    to \<open>sys_step\<close>, so that executions are computed by the simplifier, on concrete
    states and on symbolic ones.
  \<^item> \<open>Termination\<close>: the own steps of one request (\<open>own_step\<close>: its command executed or
    failed, its callback or timer run, its release) and the measure \<open>req_measure\<close>
    (retries left in the budget, weighted by the twelve phases of an attempt, plus the
    phase's position) that each of them decreases.
  \<^item> \<open>Solo\<close>: one request alone against the store, with fuel (\<open>solo\<close>, one
    \<open>solo_step\<close> per command, callback or timer), its refinement into \<open>sys_step\<close>, and
    the exact outcome of contending for a lease another process holds.
  \<^item> \<open>Lifecycle\<close>: what a solo run keeps (\<open>solo_inv\<close>: the lease in flight or granted
    is the current second plus the timeout), the acquire/release round trip, and the
    boundary of a timeout that is not positive.
  \<^item> \<open>Exports\<close>: \<open>module.exports\<close> (lines 117--121) as \<open>module_exports\<close>, the
    factory that builds an instance and returns its bound \<open>lock\<close>.
  \<^item> \<open>Scenarios\<close>: the run of \<open>src/test/index.js\<close>, two counterexamples to mutual
    exclusion, and the witnesses of the theorems with hypotheses.

  \<^bold>\<open>What is proved.\<close>
  \<^item> Mutual exclusion (\<open>Safety.mutual_exclusion\<close>): with one positive lease timeout
    for all instances, zero latency and single release, no two requests hold unexpired
    locks on one key. The invariant: every live claim (a granted request, or a winning
    reply not yet handled) is covered by the stored lease; live claims on a key are
    unique; a pending \<open>DEL\<close> is for a key with a running lease and no live claim. So a
    held lock is backed by the store (\<open>Safety.granted_lease_stored\<close>).
  \<^item> Where it fails: a \<open>DEL\<close> sent inside the lease but executed after a takeover
    (\<open>Scenarios.late_del_two_holders\<close>), and a release function called twice
    (\<open>Scenarios.double_release_two_holders\<close>) both reach two holders.
  \<^item> The release guard (\<open>System.late_release_keeps_store\<close>,
    \<open>System.timely_release_deletes\<close>), the retry budget and its off-by-one
    (\<open>Acquire.retry_budget\<close>, \<open>System.max_retries_exact\<close>,
    \<open>System.running_retries_bound\<close>, \<open>first_contention_fails_iff\<close>), the behaviour
    of each callback on each branch, errors included (\<open>Acquire\<close>), the falsy defaults
    and the options handed to the Redis client (\<open>Config\<close>), and the lease arithmetic
    (\<open>Lease\<close>).
  \<^item> A bound on every call (\<open>Termination.lock_steps_bound\<close>): whatever the store
    replies, a call of \<open>lock\<close> takes at most \<open>12 * max 0 (retries + 1) + 22\<close> steps of
    its own.
  \<^item> The solo run: enough fuel gives a finished request (\<open>Solo.solo_enough_fuel\<close>).
    Against a lease expiring at second \<open>e\<close>, a call retries \<open>max 0 (e - now)\<close> times and
    takes the lease over (\<open>Solo.lock_waits_for_expiry\<close>), or gives up with the store
    untouched when the lease outlives the budget (\<open>Solo.lock_gives_up\<close>). A solo run
    is a run of the system (\<open>Solo.solo_refines_system\<close>).
  \<^item> From any state, a timely release lets a contender whose timer is due in within
    five steps, by \<open>SETNX\<close> (\<open>Trace.release_wakes_contender\<close>); the test file's run,
    in the order one connection serves it, gives every call the lock
    (\<open>Scenarios.test_scenario\<close>).
  \<^item> Typing (\<open>Typing.deployment_typed\<close>): a deployment writes only keys under its
    instances' prefixes. Round trip (\<open>Lifecycle.lock_release_roundtrip\<close>): taking a
    free key and releasing it in time gives the store back. Boundary
    (\<open>Lifecycle.nonpositive_timeout_release_late\<close>): with a timeout that is not
    positive, every lock is born expired and its release only logs.
  \<^item> The module interface (\<open>Exports.exports_reuse_options\<close>): a second factory call
    with the same options object falls back to the default prefix and timeout, because
    the constructor deleted them from the caller's object.

  \<^bold>\<open>Choices of the model.\<close> Time is an integer clock in milliseconds, nondecreasing;
  leases and comparisons use whole seconds as \<open>.unix()\<close> does. The retry timer fires
  at least 1000 ms after it was armed. \<open>handleGet\<close> reads the clock twice (lines 70 and
  73); the model reads it once. Stored values are integers: locksmith writes only
  timestamps, and a value written by another program is not modelled. Redis executes
  commands of different requests in any order; the ordering of one connection's
  commands is not imposed (the model allows more interleavings than one connection
  produces, which is sound for the safety theorem; the counterexamples use requests
  that may belong to different processes). Every definition is total and structural;
  the only fuel is that of \<open>solo\<close>, and \<open>req_measure\<close> of the request is enough
  (\<open>12 * max 0 (retries + 1) + 22\<close> for a fresh call): each solo step is an own step,
  which decreases the measure, and a request of measure 0 has been released.

  \<^bold>\<open>Not modelled.\<close> Connecting to Redis (\<open>redis.createClient\<close>: the client is only
  named by the arguments it is created with) and the loading of \<open>redis\<close> and
  \<open>moment\<close> (lines 6--8); both are libraries the source only calls.

  \<^bold>\<open>Not yet covered.\<close> Progress in the concurrent system under zero latency
  (with several contenders, one of them acquires once the holder's lease has expired);
  the two clock reads of \<open>handleGet\<close> as separate reads.
\<close>

text \<open>
  C18. Across the constructor and \<open>retry\<close>: a request of an instance fails at its first
  contention check exactly when the \<open>retries\<close> option is a negative number; \<open>0\<close>, the
  spec's way of asking for no retry, is replaced by the default 100.
\<close>

theorem first_contention_fails_iff:
  assumes "rq_ls r = Locksmith (Some opt)" "rq_retries r = 0"
  shows "(rq_phase (retry ms r) = Done (Inl (MaxRetriesHit (max_retries_msg (rq_key r))))) =
     (\<exists>n. opt_retries opt = Some n \<and> n < 0)"
  using assms by (auto simp: retry_def Locksmith_fields js_or_int_def split: option.splits)

theorem first_contention_fails_iff_witness:
  "rq_ls (lock 0 (Locksmith (Some (no_options\<lparr>opt_retries := Some (-1)\<rparr>))) None) =
     Locksmith (Some (no_options\<lparr>opt_retries := Some (-1)\<rparr>)) \<and>
   rq_retries (lock 0 (Locksmith (Some (no_options\<lparr>opt_retries := Some (-1)\<rparr>))) None) = 0 \<and>
   rq_phase (retry 0 (lock 0 (Locksmith (Some (no_options\<lparr>opt_retries := Some (-1)\<rparr>))) None)) =
     Done (Inl (MaxRetriesHit (max_retries_msg [])))"
proof -
  let ?opt = "no_options\<lparr>opt_retries := Some (-1)\<rparr>"
  let ?r = "lock 0 (Locksmith (Some ?opt)) None"
  have h1: "rq_ls ?r = Locksmith (Some ?opt)" by (simp add: lock_def aquire_def)
  have h2: "rq_retries ?r = 0" by (simp add: lock_def aquire_def)
  have k: "rq_key ?r = []" by (simp add: lock_def aquire_def lock_key_def)
  have "\<exists>n. opt_retries ?opt = Some n \<and> n < 0" by simp
  with first_contention_fails_iff [OF h1 h2, of 0] h1 h2 k show ?thesis by simp
qed

end
